theory Spec2Isabelle
  imports Complex_Main
begin

section \<open>Python failures as values\<close>

text \<open>
  The module \<^verbatim>\<open>pyLBM/boundary.py\<close> never raises explicitly: it fails through a lookup
  in a dictionary (KeyError), an index out of range (IndexError), operands of different
  shapes (ValueError) or a call of something that is no function (TypeError). Every
  operation of the model that can fail returns \<open>py_error + 'a\<close>, \<open>Inl\<close> the exception.
  NumPy's \<^verbatim>\<open>float64\<close> entries are idealised as \<open>real\<close>, its integer entries as \<open>int\<close>.
\<close>

datatype py_error = KeyError | IndexError | ValueError | TypeError

fun bindE :: "py_error + 'a \<Rightarrow> ('a \<Rightarrow> py_error + 'b) \<Rightarrow> py_error + 'b" where
  "bindE (Inl e) g = Inl e"
| "bindE (Inr x) g = g x"

fun mapE :: "('a \<Rightarrow> py_error + 'b) \<Rightarrow> 'a list \<Rightarrow> py_error + 'b list" where
  "mapE g [] = Inr []"
| "mapE g (x # xs) = bindE (g x) (\<lambda>y. bindE (mapE g xs) (\<lambda>ys. Inr (y # ys)))"

fun foldE :: "('s \<Rightarrow> 'a \<Rightarrow> py_error + 's) \<Rightarrow> 'a list \<Rightarrow> 's \<Rightarrow> py_error + 's" where
  "foldE g [] st = Inr st"
| "foldE g (x # xs) st = bindE (g st x) (foldE g xs)"

text \<open>\<^verbatim>\<open>xs[i]\<close> on a Python list or a NumPy axis: a negative index counts from the end.\<close>

definition getitem :: "'a list \<Rightarrow> int \<Rightarrow> py_error + 'a" where
  "getitem xs i =
     (if 0 \<le> i \<and> i < int (length xs) then Inr (xs ! nat i)
      else if i < 0 \<and> - int (length xs) \<le> i then Inr (xs ! nat (int (length xs) + i))
      else Inl IndexError)"

text \<open>\<^verbatim>\<open>d[key]\<close> on a dictionary.\<close>

definition dict_getitem :: "('k \<Rightarrow> 'v option) \<Rightarrow> 'k \<Rightarrow> py_error + 'v" where
  "dict_getitem d key = (case d key of None \<Rightarrow> Inl KeyError | Some x \<Rightarrow> Inr x)"

text \<open>
  Elementwise arithmetic of two arrays along one axis. Operands of different lengths are
  rejected (NumPy would still stretch an axis of length one, which no table of this module
  has beside a table of another length).
\<close>

definition zipWithE :: "('a \<Rightarrow> 'b \<Rightarrow> 'c) \<Rightarrow> 'a list \<Rightarrow> 'b list \<Rightarrow> py_error + 'c list" where
  "zipWithE g xs ys =
     (if length xs = length ys then Inr (map2 g xs ys) else Inl ValueError)"

definition add_vec :: "int list \<Rightarrow> int list \<Rightarrow> py_error + int list" where
  "add_vec xs ys = zipWithE (+) xs ys"

section \<open>The stencil (an external collaborator, taken as data)\<close>

text \<open>
  \<^verbatim>\<open>Velocity\<close> objects of the stencil: \<^verbatim>\<open>num\<close>, \<^verbatim>\<open>v\<close>, and the \<^verbatim>\<open>num\<close> and \<^verbatim>\<open>v\<close> of what
  \<^verbatim>\<open>get_symmetric()\<close> returns.
\<close>

record velocity =
  vel_num :: int
  vel_v :: "int list"
  symmetric_num :: int
  symmetric_v :: "int list"

record stencil =
  get_symmetric :: "int list"
  get_all_velocities :: "int list list"
  nv_ptr :: "nat list"
  num :: "int list list"
  unum2index :: "int \<Rightarrow> nat option"
  unique_velocities :: "velocity list"
  unvtot :: nat

section \<open>Tables\<close>

text \<open>
  A table of shape \<open>(1 + dim, n)\<close> is kept as the list of its \<open>n\<close> columns; a column is
  its entry of row 0 (a velocity index) and its entries of the rows \<open>1..dim\<close> (a spatial
  index). So \<^verbatim>\<open>istore[0]\<close> is \<open>map fst\<close>, \<^verbatim>\<open>istore[1:]\<close> is \<open>map snd\<close> and
  \<^verbatim>\<open>np.concatenate(..., axis=1)\<close> is \<open>@\<close>.
\<close>

type_synonym column = "int \<times> int list"
type_synonym table = "column list"

text \<open>What a prescribed value can be: a function, a tuple, or any other object.\<close>

datatype pyobj = PyFunction nat | PyTuple "pyobj list" | PyObject nat

datatype method_type =
  bounce_back | Bouzidi_bounce_back | anti_bounce_back | Bouzidi_anti_bounce_back
  | Neumann | Neumann_x | Neumann_y | Neumann_z

record boundary_method =
  kind :: method_type
  istore :: table
  feq :: "real list list"
  rhs :: "real list"
  ilabel :: "int list"
  distance :: "real list"
  stencil :: stencil
  iload :: "table list"
  value_bc :: "(int \<times> pyobj option) list"
  bm_s :: "real list"
  logged :: "string list"

section \<open>\<^verbatim>\<open>Boundary_method.__init__\<close>\<close>

text \<open>
  \<^verbatim>\<open>np.unique(self.ilabel)\<close> is the sorted list of the distinct labels. The dictionary
  \<^verbatim>\<open>value_bc\<close> handed over by \<^verbatim>\<open>Boundary\<close> maps a label to its prescribed value, Python's
  \<^verbatim>\<open>None\<close> being \<open>Some None\<close> and a missing key \<open>None\<close>. \<^verbatim>\<open>Bouzidi_bounce_back.__init__\<close>
  adds \<^verbatim>\<open>self.s = np.empty(...)\<close>, whose entries are arbitrary until \<^verbatim>\<open>set_iload\<close> assigns
  every one of them; the model starts them at 0, and the other classes never read the
  field.
\<close>

definition np_unique :: "int list \<Rightarrow> int list" where
  "np_unique xs = sorted_list_of_set (set xs)"

definition Boundary_method_init ::
  "method_type \<Rightarrow> table \<Rightarrow> int list \<Rightarrow> real list \<Rightarrow> stencil \<Rightarrow> (int \<Rightarrow> pyobj option option)
     \<Rightarrow> py_error + boundary_method" where
  "Boundary_method_init cls istore0 ilabel0 distance0 st value_bc0 =
     bindE (getitem (nv_ptr st) (- 1)) (\<lambda>nv.
     bindE (mapE (\<lambda>k. bindE (dict_getitem value_bc0 k) (\<lambda>x. Inr (k, x))) (np_unique ilabel0))
       (\<lambda>vbc.
     Inr \<lparr> kind = cls, istore = istore0,
           feq = replicate nv (replicate (length istore0) 0),
           rhs = replicate (length istore0) 0,
           ilabel = ilabel0, distance = distance0, stencil = st, iload = [],
           value_bc = vbc, bm_s = replicate (length istore0) 0, logged = [] \<rparr>))"

section \<open>\<^verbatim>\<open>set_iload\<close>\<close>

text \<open>
  \<^verbatim>\<open>bounce_back.set_iload\<close>, inherited by \<^verbatim>\<open>anti_bounce_back\<close>, one column at a time. NumPy
  works on whole rows, so when several columns fail the exception it raises is the one of
  the first failing operation, not of the first failing column; the model fails whenever
  NumPy does, and succeeds with the same tables.
\<close>

definition bounce_back_load :: "stencil \<Rightarrow> column \<Rightarrow> py_error + column" where
  "bounce_back_load st col =
     bindE (getitem (get_symmetric st) (fst col)) (\<lambda>ksym.
     bindE (getitem (get_all_velocities st) (fst col)) (\<lambda>vk.
     bindE (add_vec (snd col) vk) (\<lambda>indices.
     Inr (ksym, indices))))"

text \<open>
  \<^verbatim>\<open>Bouzidi_bounce_back.set_iload\<close>: the columns under \<^verbatim>\<open>mask = self.distance < .5\<close> and
  the others.
\<close>

definition Bouzidi_s :: "real \<Rightarrow> real" where
  "Bouzidi_s d = (if d < 1 / 2 then 2 * d else (1 / 2) / d)"

definition Bouzidi_load1 :: "stencil \<Rightarrow> column \<Rightarrow> py_error + column" where
  "Bouzidi_load1 st col =
     bindE (getitem (get_symmetric st) (fst col)) (\<lambda>ksym.
     bindE (getitem (get_all_velocities st) (fst col)) (\<lambda>vk.
     bindE (add_vec (snd col) vk) (\<lambda>indices.
     Inr (ksym, indices))))"

definition Bouzidi_load2 :: "stencil \<Rightarrow> column \<times> real \<Rightarrow> py_error + column" where
  "Bouzidi_load2 st cd =
     (case cd of (col, d) \<Rightarrow>
        bindE (getitem (get_symmetric st) (fst col)) (\<lambda>ksym.
        bindE (getitem (get_all_velocities st) (fst col)) (\<lambda>vk.
        if d < 1 / 2
        then bindE (add_vec (snd col) (map (\<lambda>a. 2 * a) vk)) (\<lambda>indices. Inr (ksym, indices))
        else bindE (add_vec (snd col) vk) (\<lambda>indices. Inr (fst col, indices)))))"

text \<open>\<^verbatim>\<open>Neumann.set_iload\<close> and its three overrides.\<close>

definition Neumann_load :: "stencil \<Rightarrow> column \<Rightarrow> py_error + column" where
  "Neumann_load st col =
     bindE (getitem (get_all_velocities st) (fst col)) (\<lambda>vk.
     bindE (add_vec (snd col) vk) (\<lambda>indices.
     Inr (fst col, indices)))"

text \<open>
  \<^verbatim>\<open>indices[a] += v[k].T[b]\<close>: row \<open>a\<close> of the spatial rows receives component \<open>b\<close> of the
  velocity. Both are read with a non-negative literal index.
\<close>

definition Neumann_axis_load :: "nat \<Rightarrow> nat \<Rightarrow> stencil \<Rightarrow> column \<Rightarrow> py_error + column" where
  "Neumann_axis_load a b st col =
     bindE (getitem (get_all_velocities st) (fst col)) (\<lambda>vk.
     if a < length (snd col) \<and> b < length vk
     then Inr (fst col, (snd col)[a := snd col ! a + vk ! b])
     else Inl IndexError)"

definition Neumann_x_load :: "stencil \<Rightarrow> column \<Rightarrow> py_error + column" where
  "Neumann_x_load = Neumann_axis_load 0 0"

definition Neumann_y_load :: "stencil \<Rightarrow> column \<Rightarrow> py_error + column" where
  "Neumann_y_load = Neumann_axis_load 1 1"

definition Neumann_z_load :: "stencil \<Rightarrow> column \<Rightarrow> py_error + column" where
  "Neumann_z_load = Neumann_axis_load 1 2"

text \<open>
  The method itself: each call appends its tables to \<^verbatim>\<open>self.iload\<close>. The Bouzidi classes
  also assign \<^verbatim>\<open>self.s\<close>; their mask must have one entry per column.
\<close>

definition append_iload :: "boundary_method \<Rightarrow> (column \<Rightarrow> py_error + column) \<Rightarrow>
    py_error + boundary_method" where
  "append_iload self g =
     bindE (mapE g (istore self)) (\<lambda>t. Inr (self\<lparr>iload := iload self @ [t]\<rparr>))"

definition Bouzidi_set_iload :: "boundary_method \<Rightarrow> py_error + boundary_method" where
  "Bouzidi_set_iload self =
     (if length (distance self) \<noteq> length (istore self) then Inl IndexError
      else
        bindE (mapE (Bouzidi_load1 (stencil self)) (istore self)) (\<lambda>iload1.
        bindE (mapE (Bouzidi_load2 (stencil self)) (zip (istore self) (distance self)))
          (\<lambda>iload2.
        Inr (self\<lparr>bm_s := map Bouzidi_s (distance self),
                  iload := iload self @ [iload1, iload2]\<rparr>))))"

definition set_iload :: "boundary_method \<Rightarrow> py_error + boundary_method" where
  "set_iload self =
     (case kind self of
        bounce_back \<Rightarrow> append_iload self (bounce_back_load (stencil self))
      | anti_bounce_back \<Rightarrow> append_iload self (bounce_back_load (stencil self))
      | Bouzidi_bounce_back \<Rightarrow> Bouzidi_set_iload self
      | Bouzidi_anti_bounce_back \<Rightarrow> Bouzidi_set_iload self
      | Neumann \<Rightarrow> append_iload self (Neumann_load (stencil self))
      | Neumann_x \<Rightarrow> append_iload self (Neumann_x_load (stencil self))
      | Neumann_y \<Rightarrow> append_iload self (Neumann_y_load (stencil self))
      | Neumann_z \<Rightarrow> append_iload self (Neumann_z_load (stencil self)))"

section \<open>\<^verbatim>\<open>set_rhs\<close>\<close>

text \<open>\<^verbatim>\<open>self.feq[k, np.arange(k.size)]\<close>: the entry of row \<open>k\<close> at each column.\<close>

definition feq_at :: "real list list \<Rightarrow> int \<Rightarrow> nat \<Rightarrow> py_error + real" where
  "feq_at tab k c = bindE (getitem tab k) (\<lambda>row. getitem row (int c))"

definition rhs_entry ::
  "(real \<Rightarrow> real \<Rightarrow> real) \<Rightarrow> boundary_method \<Rightarrow> nat \<Rightarrow> py_error + real" where
  "rhs_entry g self c =
     bindE (getitem (get_symmetric (stencil self)) (fst (istore self ! c))) (\<lambda>ksym.
     bindE (feq_at (feq self) (fst (istore self ! c)) c) (\<lambda>a.
     bindE (feq_at (feq self) ksym c) (\<lambda>b.
     Inr (g a b))))"

definition assign_rhs ::
  "(real \<Rightarrow> real \<Rightarrow> real) \<Rightarrow> boundary_method \<Rightarrow> py_error + boundary_method" where
  "assign_rhs g self =
     bindE (mapE (rhs_entry g self) [0 ..< length (istore self)]) (\<lambda>r.
     if length r = length (rhs self) then Inr (self\<lparr>rhs := r\<rparr>) else Inl ValueError)"

definition set_rhs :: "boundary_method \<Rightarrow> py_error + boundary_method" where
  "set_rhs self =
     (case kind self of
        bounce_back \<Rightarrow> assign_rhs (-) self
      | Bouzidi_bounce_back \<Rightarrow> assign_rhs (-) self
      | anti_bounce_back \<Rightarrow> assign_rhs (+) self
      | Bouzidi_anti_bounce_back \<Rightarrow> assign_rhs (+) self
      | _ \<Rightarrow> Inr self)"

section \<open>The distribution field and \<^verbatim>\<open>update\<close>\<close>

text \<open>
  The field \<^verbatim>\<open>f\<close> is an array with one axis for the velocity and one for each spatial
  axis: its shape, and its entries by their (non-negative) index. \<^verbatim>\<open>f[tuple(table)]\<close>
  reads one entry per column; an index is taken modulo the negative wrap-around on every
  axis and fails out of range. The field is a different object from the instance's own
  arrays.
\<close>

record dfield =
  shape :: "nat list"
  entries :: "nat list \<Rightarrow> real"

definition axis_index :: "nat \<times> int \<Rightarrow> py_error + nat" where
  "axis_index ni =
     (case ni of (n, i) \<Rightarrow>
        if 0 \<le> i \<and> i < int n then Inr (nat i)
        else if i < 0 \<and> - int n \<le> i then Inr (nat (int n + i))
        else Inl IndexError)"

definition field_index :: "nat list \<Rightarrow> column \<Rightarrow> py_error + nat list" where
  "field_index shp col =
     (if length shp = Suc (length (snd col))
      then mapE axis_index (zip shp (fst col # snd col))
      else Inl IndexError)"

definition gather :: "dfield \<Rightarrow> table \<Rightarrow> py_error + real list" where
  "gather f t = mapE (\<lambda>col. bindE (field_index (shape f) col) (\<lambda>i. Inr (entries f i))) t"

text \<open>
  \<^verbatim>\<open>f[tuple(table)] = vals\<close>: the indices are checked first, then the values are stored
  column after column, so that a later column wins over an earlier one with the same
  index.
\<close>

definition store :: "(nat list \<Rightarrow> real) \<Rightarrow> (nat list \<times> real) list \<Rightarrow> nat list \<Rightarrow> real" where
  "store g ws = foldl (\<lambda>h w. h(fst w := snd w)) g ws"

definition scatter :: "dfield \<Rightarrow> table \<Rightarrow> real list \<Rightarrow> py_error + dfield" where
  "scatter f t vals =
     bindE (mapE (field_index (shape f)) t) (\<lambda>idx.
     if length idx = length vals
     then Inr (f\<lparr>entries := store (entries f) (zip idx vals)\<rparr>)
     else Inl ValueError)"

text \<open>The right-hand side of each class's \<^verbatim>\<open>update\<close>, computed from the field as it is.\<close>

definition bounce_back_values :: "boundary_method \<Rightarrow> dfield \<Rightarrow> py_error + real list" where
  "bounce_back_values self f =
     bindE (getitem (iload self) 0) (\<lambda>l0.
     bindE (gather f l0) (\<lambda>f0.
     zipWithE (+) f0 (rhs self)))"

definition anti_bounce_back_values :: "boundary_method \<Rightarrow> dfield \<Rightarrow> py_error + real list" where
  "anti_bounce_back_values self f =
     bindE (getitem (iload self) 0) (\<lambda>l0.
     bindE (gather f l0) (\<lambda>f0.
     zipWithE (+) (map uminus f0) (rhs self)))"

definition Bouzidi_bounce_back_values :: "boundary_method \<Rightarrow> dfield \<Rightarrow> py_error + real list" where
  "Bouzidi_bounce_back_values self f =
     bindE (getitem (iload self) 0) (\<lambda>l0.
     bindE (gather f l0) (\<lambda>f0.
     bindE (zipWithE (*) (bm_s self) f0) (\<lambda>a.
     bindE (getitem (iload self) 1) (\<lambda>l1.
     bindE (gather f l1) (\<lambda>f1.
     bindE (zipWithE (*) (map (\<lambda>w. 1 - w) (bm_s self)) f1) (\<lambda>b.
     bindE (zipWithE (+) a b) (\<lambda>ab.
     zipWithE (+) ab (rhs self))))))))"

definition Bouzidi_anti_bounce_back_values ::
  "boundary_method \<Rightarrow> dfield \<Rightarrow> py_error + real list" where
  "Bouzidi_anti_bounce_back_values self f =
     bindE (getitem (iload self) 0) (\<lambda>l0.
     bindE (gather f l0) (\<lambda>f0.
     bindE (zipWithE (*) (map uminus (bm_s self)) f0) (\<lambda>a.
     bindE (getitem (iload self) 1) (\<lambda>l1.
     bindE (gather f l1) (\<lambda>f1.
     bindE (zipWithE (*) (map (\<lambda>w. w - 1) (bm_s self)) f1) (\<lambda>b.
     bindE (zipWithE (+) a b) (\<lambda>ab.
     zipWithE (+) ab (rhs self))))))))"

definition Neumann_values :: "boundary_method \<Rightarrow> dfield \<Rightarrow> py_error + real list" where
  "Neumann_values self f = bindE (getitem (iload self) 0) (\<lambda>l0. gather f l0)"

definition update_values :: "boundary_method \<Rightarrow> dfield \<Rightarrow> py_error + real list" where
  "update_values self f =
     (case kind self of
        bounce_back \<Rightarrow> bounce_back_values self f
      | Bouzidi_bounce_back \<Rightarrow> Bouzidi_bounce_back_values self f
      | anti_bounce_back \<Rightarrow> anti_bounce_back_values self f
      | Bouzidi_anti_bounce_back \<Rightarrow> Bouzidi_anti_bounce_back_values self f
      | _ \<Rightarrow> Neumann_values self f)"

text \<open>
  \<^verbatim>\<open>update(self, f)\<close> returns the instance and the field as the call leaves them; on a
  failure nothing has been stored.
\<close>

definition update :: "boundary_method \<Rightarrow> dfield \<Rightarrow> py_error + boundary_method \<times> dfield" where
  "update self f =
     bindE (update_values self f) (\<lambda>vals.
     bindE (scatter f (istore self) vals) (\<lambda>f'.
     Inr (self, f')))"

section \<open>\<^verbatim>\<open>prepare_rhs\<close>\<close>

text \<open>
  The simulation is an external collaborator. What \<^verbatim>\<open>prepare_rhs\<close> takes from it is
  gathered in two functions. \<open>coordinates\<close> stands for lines 179-192: from the selected
  columns of \<^verbatim>\<open>istore\<close> and their distances it returns the coordinates on the wall, or the
  exception raised on the way. \<open>forcing\<close> stands for the call of line 196 or 202 and lines
  203-206: given the function to call with its extra arguments (\<open>None\<close> when nothing is
  called) and the coordinates, it returns \<^verbatim>\<open>f.swaparray.reshape((nv, indices[0].size))\<close>,
  the equilibrium after the call, or the exception raised on the way.
\<close>

record simulation =
  coordinates :: "table \<Rightarrow> real list \<Rightarrow> py_error + real list list"
  forcing :: "(pyobj \<times> pyobj list) option \<Rightarrow> real list list \<Rightarrow> py_error + real list list"

definition arity_message :: string where
  "arity_message =
     ''Function set in boundary must be the function name or a tuple of size 2 with function name and extra args.''"

text \<open>
  Lines 195-202: what is logged and what is called for a prescribed value. For a tuple,
  \<^verbatim>\<open>value[1]\<close> is read first, \<^verbatim>\<open>coords + value[1]\<close> needs it to be a tuple, and \<^verbatim>\<open>value[0]\<close>
  is the function called.
\<close>

definition prescribed_call ::
  "pyobj \<Rightarrow> string list \<times> (py_error + (pyobj \<times> pyobj list) option)" where
  "prescribed_call val =
     (case val of
        PyFunction n \<Rightarrow> ([], Inr (Some (val, [])))
      | PyTuple vs \<Rightarrow>
          (if length vs \<noteq> 2 then [arity_message] else [],
           bindE (getitem vs 1) (\<lambda>a.
             case a of
               PyTuple extra \<Rightarrow> bindE (getitem vs 0) (\<lambda>g. Inr (Some (g, extra)))
             | _ \<Rightarrow> Inl TypeError))
      | PyObject n \<Rightarrow> ([], Inr None))"

text \<open>\<^verbatim>\<open>np.where(self.ilabel == key)\<close>: the columns of the label, in increasing order.\<close>

definition where_label :: "int list \<Rightarrow> int \<Rightarrow> nat list" where
  "where_label il key = filter (\<lambda>c. il ! c = key) [0 ..< length il]"

text \<open>
  \<^verbatim>\<open>self.feq[:, indices[0]] = new\<close>: every row of the table receives the row of \<open>new\<close> at
  the columns \<open>cs\<close>. A table \<open>new\<close> of one row is stretched over all rows, as NumPy does.
\<close>

definition write_row :: "nat list \<Rightarrow> real list \<Rightarrow> real list \<Rightarrow> real list" where
  "write_row cs row new_row = foldl (\<lambda>r cx. r[fst cx := snd cx]) row (zip cs new_row)"

definition write_columns ::
  "real list list \<Rightarrow> nat list \<Rightarrow> real list list \<Rightarrow> py_error + real list list" where
  "write_columns tab cs new =
     (if \<not> list_all (\<lambda>row. list_all (\<lambda>c. c < length row) cs) tab then Inl IndexError
      else
        let new' = (if length new = 1 then replicate (length tab) (hd new) else new) in
        if length new' = length tab \<and> list_all (\<lambda>row. length row = length cs) new'
        then Inr (map2 (write_row cs) tab new')
        else Inl ValueError)"

text \<open>
  One round of the loop over \<^verbatim>\<open>self.value_bc.items()\<close>. The instance is mutated in place,
  so the model returns it as the round leaves it together with the exception, if any.
\<close>

definition prepare_rhs_label ::
  "simulation \<Rightarrow> boundary_method \<Rightarrow> int \<times> pyobj option \<Rightarrow> py_error option \<times> boundary_method"
  where
  "prepare_rhs_label sim self kv =
     (case snd kv of
        None \<Rightarrow> (None, self)
      | Some val \<Rightarrow>
          let cs = where_label (ilabel self) (fst kv) in
          (case bindE (mapE (\<lambda>c. getitem (istore self) (int c)) cs) (\<lambda>cols.
                bindE (mapE (\<lambda>c. getitem (distance self) (int c)) cs) (\<lambda>ds.
                coordinates sim cols ds)) of
             Inl e \<Rightarrow> (Some e, self)
           | Inr coords \<Rightarrow>
               let self1 = self\<lparr>logged := logged self @ fst (prescribed_call val)\<rparr> in
               (case bindE (snd (prescribed_call val)) (\<lambda>cl. forcing sim cl coords) of
                  Inl e \<Rightarrow> (Some e, self1)
                | Inr new \<Rightarrow>
                    (case write_columns (feq self1) cs new of
                       Inl e \<Rightarrow> (Some e, self1)
                     | Inr tab \<Rightarrow> (None, self1\<lparr>feq := tab\<rparr>)))))"

fun prepare_rhs_loop ::
  "simulation \<Rightarrow> (int \<times> pyobj option) list \<Rightarrow> boundary_method \<Rightarrow>
     py_error option \<times> boundary_method" where
  "prepare_rhs_loop sim [] self = (None, self)"
| "prepare_rhs_loop sim (kv # kvs) self =
     (case prepare_rhs_label sim self kv of
        (None, self') \<Rightarrow> prepare_rhs_loop sim kvs self'
      | (Some e, self') \<Rightarrow> (Some e, self'))"

definition prepare_rhs ::
  "simulation \<Rightarrow> boundary_method \<Rightarrow> py_error option \<times> boundary_method" where
  "prepare_rhs sim self = prepare_rhs_loop sim (value_bc self) self"

section \<open>\<^verbatim>\<open>Boundary_Velocity\<close> and \<^verbatim>\<open>Boundary\<close>\<close>

text \<open>
  The domain is an external collaborator: its labels, its stencil, its array \<^verbatim>\<open>flag\<close>
  (for each unique velocity, the cells of the grid in row-major order with their flags,
  which is the order of \<^verbatim>\<open>np.where\<close>) and its array \<^verbatim>\<open>distance\<close> of the same shape.
\<close>

record domain =
  list_of_labels :: "int list"
  dom_stencil :: stencil
  flag :: "(int list \<times> int) list list"
  dom_distance :: "nat \<Rightarrow> int list \<Rightarrow> real"

record bv_record =
  bv_label :: int
  bv_v :: velocity
  bv_indices :: "int list list"
  bv_distance :: "real list"

definition Boundary_Velocity :: "domain \<Rightarrow> int \<Rightarrow> nat \<Rightarrow> py_error + bv_record" where
  "Boundary_Velocity dmn label ksym =
     bindE (getitem (unique_velocities (dom_stencil dmn)) (int ksym)) (\<lambda>uv.
     bindE (dict_getitem (unum2index (dom_stencil dmn)) (symmetric_num uv)) (\<lambda>n.
     bindE (getitem (flag dmn) (int n)) (\<lambda>cells.
     bindE (mapE (\<lambda>i. add_vec i (symmetric_v uv))
              (map fst (filter (\<lambda>cf. snd cf = label) cells))) (\<lambda>indices.
     Inr \<lparr> bv_label = label, bv_v = uv, bv_indices = indices,
           bv_distance =
             map (dom_distance dmn n) (map fst (filter (\<lambda>cf. snd cf = label) cells)) \<rparr>))))"

text \<open>
  A dictionary that is iterated is kept as an association list in the order of its keys;
  \<^verbatim>\<open>d[key] = x\<close> replaces the entry of a key already there and appends a new key.
\<close>

fun setitem :: "'k \<Rightarrow> 'v \<Rightarrow> ('k \<times> 'v) list \<Rightarrow> ('k \<times> 'v) list" where
  "setitem key x [] = [(key, x)]"
| "setitem key x (kv # kvs) =
     (if fst kv = key then (key, x) # kvs else kv # setitem key x kvs)"

text \<open>
  The configuration: \<^verbatim>\<open>dico['boundary_conditions']\<close> maps a label to an entry with the
  keys \<^verbatim>\<open>'method'\<close> (a dictionary from a velocity family to a class; \<open>None\<close> when the key is
  missing) and \<^verbatim>\<open>'value'\<close> (read with \<^verbatim>\<open>.get('value', None)\<close>).
\<close>

record bc_entry =
  bc_method :: "(int \<times> method_type) list option"
  bc_value :: "pyobj option"

record dico =
  boundary_conditions :: "(int \<Rightarrow> bc_entry option) option"

record tables =
  t_istore :: "(method_type \<times> table) list"
  t_ilabel :: "(method_type \<times> int list) list"
  t_distance :: "(method_type \<times> real list) list"
  t_value_bc :: "int \<Rightarrow> pyobj option option"

text \<open>Lines 110-117: the columns of one record join the tables of the class \<open>v\<close>.\<close>

definition add_columns ::
  "tables \<Rightarrow> method_type \<Rightarrow> table \<Rightarrow> int list \<Rightarrow> real list \<Rightarrow> py_error + tables" where
  "add_columns acc v istore_tmp ilabel_tmp distance_tmp =
     (case map_of (t_istore acc) v of
        None \<Rightarrow>
          Inr (acc\<lparr>t_istore := setitem v istore_tmp (t_istore acc),
                   t_ilabel := setitem v ilabel_tmp (t_ilabel acc),
                   t_distance := setitem v distance_tmp (t_distance acc)\<rparr>)
      | Some ist \<Rightarrow>
          bindE (dict_getitem (map_of (t_ilabel acc)) v) (\<lambda>il.
          bindE (dict_getitem (map_of (t_distance acc)) v) (\<lambda>di.
          Inr (acc\<lparr>t_istore := setitem v (ist @ istore_tmp) (t_istore acc),
                   t_ilabel := setitem v (il @ ilabel_tmp) (t_ilabel acc),
                   t_distance := setitem v (di @ distance_tmp) (t_distance acc)\<rparr>))))"

text \<open>
  Lines 103-117, one velocity \<open>numk\<close> at position \<open>inumk\<close> of the family \<open>k\<close>.
  \<^verbatim>\<open>indices.size\<close> counts the entries of the \<open>(dim, n)\<close> array of the record.
\<close>

definition velocity_step ::
  "stencil \<Rightarrow> (int \<times> bv_record list) list \<Rightarrow> int \<Rightarrow> int \<Rightarrow> method_type \<Rightarrow> tables \<Rightarrow> nat \<times> int
     \<Rightarrow> py_error + tables" where
  "velocity_step st bvs label k v acc e =
     bindE (dict_getitem (map_of bvs) label) (\<lambda>bvl.
     bindE (dict_getitem (unum2index st) (snd e)) (\<lambda>u.
     bindE (getitem bvl (int u)) (\<lambda>b.
     if concat (bv_indices b) \<noteq> []
     then
       bindE (getitem (nv_ptr st) k) (\<lambda>p.
       add_columns acc v
         (map (\<lambda>i. (int (fst e) + int p, i)) (bv_indices b))
         (replicate (length (bv_indices b)) label)
         (bv_distance b))
     else Inr acc)))"

definition family_step ::
  "stencil \<Rightarrow> (int \<times> bv_record list) list \<Rightarrow> int \<Rightarrow> tables \<Rightarrow> int \<times> method_type
     \<Rightarrow> py_error + tables" where
  "family_step st bvs label acc kv =
     bindE (getitem (num st) (fst kv)) (\<lambda>nums.
     foldE (velocity_step st bvs label (fst kv) (snd kv)) (enumerate 0 nums) acc)"

text \<open>Lines 92-117, one label.\<close>

definition label_step ::
  "stencil \<Rightarrow> (int \<times> bv_record list) list \<Rightarrow> (int \<Rightarrow> bc_entry option) \<Rightarrow> tables \<Rightarrow> int
     \<Rightarrow> py_error + tables" where
  "label_step st bvs dico_bound acc label =
     (if label = - 1 then Inr acc
      else if label = - 2 then Inr acc
      else
        bindE (dict_getitem dico_bound label) (\<lambda>entry.
        bindE (dict_getitem bc_method entry) (\<lambda>methods.
        foldE (family_step st bvs label) methods
          (acc\<lparr>t_value_bc := (t_value_bc acc)(label \<mapsto> bc_value entry)\<rparr>))))"

text \<open>Lines 76-81: the records of every label and every unique velocity.\<close>

definition bv_step ::
  "domain \<Rightarrow> (int \<times> bv_record list) list \<Rightarrow> int \<Rightarrow> py_error + (int \<times> bv_record list) list"
  where
  "bv_step dmn bvs label =
     bindE (mapE (Boundary_Velocity dmn label) [0 ..< unvtot (dom_stencil dmn)]) (\<lambda>dummy_bv.
     Inr (setitem label dummy_bv bvs))"

text \<open>Lines 120-122: one instance for each class, in the order of \<^verbatim>\<open>istore.keys()\<close>.\<close>

definition make_method ::
  "stencil \<Rightarrow> tables \<Rightarrow> method_type \<times> table \<Rightarrow> py_error + boundary_method" where
  "make_method st acc kt =
     bindE (dict_getitem (map_of (t_ilabel acc)) (fst kt)) (\<lambda>il.
     bindE (dict_getitem (map_of (t_distance acc)) (fst kt)) (\<lambda>di.
     Boundary_method_init (fst kt) (snd kt) il di st (t_value_bc acc)))"

record boundary =
  bv :: "(int \<times> bv_record list) list"
  methods :: "boundary_method list"

definition empty_tables :: tables where
  "empty_tables = \<lparr> t_istore = [], t_ilabel = [], t_distance = [], t_value_bc = Map.empty \<rparr>"

definition dico_bound_of :: "dico \<Rightarrow> int \<Rightarrow> bc_entry option" where
  "dico_bound_of d = (case boundary_conditions d of None \<Rightarrow> Map.empty | Some b \<Rightarrow> b)"

definition build_bv :: "domain \<Rightarrow> py_error + (int \<times> bv_record list) list" where
  "build_bv dmn = foldE (bv_step dmn) (list_of_labels dmn) []"

definition build_tables :: "domain \<Rightarrow> dico \<Rightarrow> (int \<times> bv_record list) list \<Rightarrow> py_error + tables"
  where
  "build_tables dmn d bvs =
     foldE (label_step (dom_stencil dmn) bvs (dico_bound_of d)) (list_of_labels dmn)
       empty_tables"

definition Boundary_init :: "domain \<Rightarrow> dico \<Rightarrow> py_error + boundary" where
  "Boundary_init dmn d =
     bindE (build_bv dmn) (\<lambda>bvs.
     bindE (build_tables dmn d bvs) (\<lambda>acc.
     bindE (mapE (make_method (dom_stencil dmn) acc) (t_istore acc)) (\<lambda>ms.
     Inr \<lparr> bv = bvs, methods = ms \<rparr>)))"

section \<open>The order of the columns, as the specification words it\<close>

text \<open>
  The specification describes the tables of a class as the concatenation, in the order
  met, of what the traversal of the labels, of the velocity families of each label and of
  the velocities of each family contributes. The following definitions say this without
  the accumulating dictionaries of the source: the contributions of the traversal as a
  list, each with the class it goes to, and the tables of a class as the concatenation of
  its contributions. They are compared with \<open>Boundary_init\<close> below.
\<close>

type_synonym contribution = "method_type \<times> table \<times> int list \<times> real list"

definition velocity_columns ::
  "stencil \<Rightarrow> (int \<times> bv_record list) list \<Rightarrow> int \<Rightarrow> int \<Rightarrow> method_type \<Rightarrow> nat \<times> int
     \<Rightarrow> py_error + contribution list" where
  "velocity_columns st bvs label k v e =
     bindE (dict_getitem (map_of bvs) label) (\<lambda>bvl.
     bindE (dict_getitem (unum2index st) (snd e)) (\<lambda>u.
     bindE (getitem bvl (int u)) (\<lambda>b.
     if concat (bv_indices b) \<noteq> []
     then
       bindE (getitem (nv_ptr st) k) (\<lambda>p.
       Inr [(v, map (\<lambda>i. (int (fst e) + int p, i)) (bv_indices b),
             replicate (length (bv_indices b)) label, bv_distance b)])
     else Inr [])))"

definition family_columns ::
  "stencil \<Rightarrow> (int \<times> bv_record list) list \<Rightarrow> int \<Rightarrow> int \<times> method_type
     \<Rightarrow> py_error + contribution list" where
  "family_columns st bvs label kv =
     bindE (getitem (num st) (fst kv)) (\<lambda>nums.
     bindE (mapE (velocity_columns st bvs label (fst kv) (snd kv)) (enumerate 0 nums))
       (\<lambda>xs. Inr (concat xs)))"

definition label_columns ::
  "stencil \<Rightarrow> (int \<times> bv_record list) list \<Rightarrow> (int \<Rightarrow> bc_entry option) \<Rightarrow> int
     \<Rightarrow> py_error + contribution list" where
  "label_columns st bvs dico_bound label =
     (if label = - 1 \<or> label = - 2 then Inr []
      else
        bindE (dict_getitem dico_bound label) (\<lambda>entry.
        bindE (dict_getitem bc_method entry) (\<lambda>methods.
        bindE (mapE (family_columns st bvs label) methods) (\<lambda>xs. Inr (concat xs)))))"

definition traversal ::
  "domain \<Rightarrow> dico \<Rightarrow> (int \<times> bv_record list) list \<Rightarrow> py_error + contribution list" where
  "traversal dmn d bvs =
     bindE (mapE (label_columns (dom_stencil dmn) bvs (dico_bound_of d)) (list_of_labels dmn))
       (\<lambda>xs. Inr (concat xs))"

text \<open>The classes in the order in which they are first met.\<close>

fun first_seen :: "'a list \<Rightarrow> 'a list" where
  "first_seen [] = []"
| "first_seen (x # xs) = x # filter (\<lambda>y. y \<noteq> x) (first_seen xs)"

definition columns_of :: "method_type \<Rightarrow> contribution list \<Rightarrow> table" where
  "columns_of v cs = concat (map (\<lambda>c. fst (snd c)) (filter (\<lambda>c. fst c = v) cs))"

definition labels_of :: "method_type \<Rightarrow> contribution list \<Rightarrow> int list" where
  "labels_of v cs = concat (map (\<lambda>c. fst (snd (snd c))) (filter (\<lambda>c. fst c = v) cs))"

definition distances_of :: "method_type \<Rightarrow> contribution list \<Rightarrow> real list" where
  "distances_of v cs = concat (map (\<lambda>c. snd (snd (snd c))) (filter (\<lambda>c. fst c = v) cs))"

definition grouped :: "contribution list \<Rightarrow> (int \<Rightarrow> pyobj option option) \<Rightarrow> tables" where
  "grouped cs vb =
     \<lparr> t_istore = map (\<lambda>v. (v, columns_of v cs)) (first_seen (map fst cs)),
       t_ilabel = map (\<lambda>v. (v, labels_of v cs)) (first_seen (map fst cs)),
       t_distance = map (\<lambda>v. (v, distances_of v cs)) (first_seen (map fst cs)),
       t_value_bc = vb \<rparr>"

section \<open>Concrete instances\<close>

text \<open>The seven velocities of a three-dimensional stencil, each with its opposite.\<close>

definition D3Q7 :: stencil where
  "D3Q7 = \<lparr> get_symmetric = [0, 2, 1, 4, 3, 6, 5],
            get_all_velocities =
              [[0, 0, 0], [1, 0, 0], [- 1, 0, 0], [0, 1, 0], [0, - 1, 0], [0, 0, 1], [0, 0, - 1]],
            nv_ptr = [0, 7], num = [[0, 1, 2, 3, 4, 5, 6]],
            unum2index = (\<lambda>n. if 0 \<le> n \<and> n < 7 then Some (nat n) else None),
            unique_velocities = [], unvtot = 0 \<rparr>"

definition Neumann_z_instance :: boundary_method where
  "Neumann_z_instance =
     \<lparr> kind = Neumann_z, istore = [(5, [4, 4, 4])], feq = replicate 7 [0], rhs = [0],
       ilabel = [0], distance = [0], stencil = D3Q7, iload = [], value_bc = [(0, None)],
       bm_s = [0], logged = [] \<rparr>"

text \<open>The three velocities of a one-dimensional stencil.\<close>

definition D1Q3 :: stencil where
  "D1Q3 = \<lparr> get_symmetric = [0, 2, 1],
            get_all_velocities = [[0], [1], [- 1]],
            nv_ptr = [0, 3], num = [[0, 1, 2]],
            unum2index = (\<lambda>n. if 0 \<le> n \<and> n < 3 then Some (nat n) else None),
            unique_velocities =
              [\<lparr> vel_num = 0, vel_v = [0], symmetric_num = 0, symmetric_v = [0] \<rparr>,
               \<lparr> vel_num = 1, vel_v = [1], symmetric_num = 2, symmetric_v = [- 1] \<rparr>,
               \<lparr> vel_num = 2, vel_v = [- 1], symmetric_num = 1, symmetric_v = [1] \<rparr>],
            unvtot = 3 \<rparr>"

definition sign_check :: "method_type \<Rightarrow> boundary_method" where
  "sign_check cls =
     \<lparr> kind = cls, istore = [(1, [0])], feq = [[0], [2], [1]], rhs = [0],
       ilabel = [0], distance = [0], stencil = D1Q3, iload = [], value_bc = [(0, None)],
       bm_s = [0], logged = [] \<rparr>"

definition constant_field :: "real \<Rightarrow> dfield" where
  "constant_field a = \<lparr> shape = [3, 4], entries = (\<lambda>i. a) \<rparr>"




definition reflection_instance :: boundary_method where
  "reflection_instance =
     \<lparr> kind = bounce_back, istore = [(1, [0])], feq = [[0], [0], [0]], rhs = [0],
       ilabel = [0], distance = [0], stencil = D1Q3, iload = [], value_bc = [(0, None)],
       bm_s = [0], logged = [] \<rparr>"

text \<open>A Bouzidi instance with one column on each side of the distance 0.5.\<close>

definition Bouzidi_instance :: boundary_method where
  "Bouzidi_instance =
     \<lparr> kind = Bouzidi_bounce_back, istore = [(1, [0]), (2, [3])],
       feq = [[0, 0], [5, 0], [1, 7]], rhs = [0, 0],
       ilabel = [0, 0], distance = [1 / 4, 3 / 4], stencil = D1Q3, iload = [],
       value_bc = [(0, None)], bm_s = [0, 0], logged = [] \<rparr>"

definition sample_field :: dfield where
  "sample_field =
     \<lparr> shape = [3, 4],
       entries = (\<lambda>i. if i = [2, 1] then 8 else if i = [2, 2] then 2
                       else if i = [1, 2] then 3 else 0) \<rparr>"

definition Bouzidi_ready :: boundary_method where
  "Bouzidi_ready =
     Bouzidi_instance\<lparr>bm_s := [1 / 2, 2 / 3],
       iload := [[(2, [1]), (1, [2])], [(2, [2]), (2, [2])]], rhs := [4, 7]\<rparr>"

text \<open>
  An instance of two labels: label 0 is given a tuple of three components, label 1 no value.
  The simulation answers every call with an equilibrium of 7 in each of three rows.
\<close>

definition wrong_arity_instance :: boundary_method where
  "wrong_arity_instance =
     \<lparr> kind = bounce_back, istore = [(1, [0]), (2, [3])],
       feq = [[0, 0], [0, 0], [0, 0]], rhs = [0, 0],
       ilabel = [0, 1], distance = [0, 0], stencil = D1Q3, iload = [],
       value_bc = [(0, Some (PyTuple [PyFunction 0, PyTuple [], PyObject 9])), (1, None)],
       bm_s = [0, 0], logged = [] \<rparr>"

definition constant_simulation :: simulation where
  "constant_simulation =
     \<lparr> coordinates = (\<lambda>cols ds. Inr [map (\<lambda>c. real_of_int (hd (snd c))) cols]),
       forcing = (\<lambda>cl coords. Inr [map (\<lambda>x. 7) (hd coords), map (\<lambda>x. 7) (hd coords),
                                   map (\<lambda>x. 7) (hd coords)]) \<rparr>"

text \<open>
  A one-dimensional domain of four cells: the periodic label, label 0 on the left wall and
  label 1 on the right wall, both walls with bounce-back and no prescribed value.
\<close>

definition segment :: domain where
  "segment =
     \<lparr> list_of_labels = [- 1, 0, 1], dom_stencil = D1Q3,
       flag = [[([0], 9), ([1], 9), ([2], 9), ([3], 9)],
               [([0], 9), ([1], 9), ([2], 1), ([3], 9)],
               [([0], 9), ([1], 0), ([2], 9), ([3], 9)]],
       dom_distance = (\<lambda>n cell. if n = 1 then 1 / 4 else 3 / 4) \<rparr>"

definition walls :: dico where
  "walls =
     \<lparr> boundary_conditions =
         Some (\<lambda>label. if label = 0 \<or> label = 1
                        then Some \<lparr> bc_method = Some [(0, bounce_back)], bc_value = None \<rparr>
                        else None) \<rparr>"

text \<open>A configuration that names the left wall only.\<close>

definition left_wall_only :: dico where
  "left_wall_only =
     \<lparr> boundary_conditions =
         Some (\<lambda>label. if label = 0
                        then Some \<lparr> bc_method = Some [(0, bounce_back)], bc_value = None \<rparr>
                        else None) \<rparr>"

text \<open>
  A Bouzidi instance of one column at any distance \<open>d\<close>, with any equilibrium entries, and
  the entry of the field found after \<^verbatim>\<open>set_iload\<close>, \<^verbatim>\<open>set_rhs\<close> and \<^verbatim>\<open>update\<close>.
\<close>

definition Bouzidi_column :: "real \<Rightarrow> real \<Rightarrow> real \<Rightarrow> boundary_method" where
  "Bouzidi_column d q1 q2 =
     \<lparr> kind = Bouzidi_bounce_back, istore = [(1, [0])], feq = [[0], [q1], [q2]], rhs = [0],
       ilabel = [0], distance = [d], stencil = D1Q3, iload = [], value_bc = [(0, None)],
       bm_s = [0], logged = [] \<rparr>"

definition written_entry :: "boundary_method \<Rightarrow> dfield \<Rightarrow> nat list \<Rightarrow> py_error + real" where
  "written_entry self f i =
     bindE (set_iload self) (\<lambda>self1.
     bindE (set_rhs self1) (\<lambda>self2.
     bindE (update self2 f) (\<lambda>r. Inr (entries (snd r) i))))"

section \<open>Basic facts about the failure monad, the tables and the field\<close>

lemma bindE_Inr: "bindE m g = Inr y \<longleftrightarrow> (\<exists>x. m = Inr x \<and> g x = Inr y)"
  by (cases m) auto

lemma mapE_length: "mapE g xs = Inr ys \<Longrightarrow> length ys = length xs"
  by (induction xs arbitrary: ys) (auto simp: bindE_Inr)

lemma mapE_nth: "mapE g xs = Inr ys \<Longrightarrow> i < length xs \<Longrightarrow> g (xs ! i) = Inr (ys ! i)"
proof (induction xs arbitrary: ys i)
  case Nil
  then show ?case by simp
next
  case (Cons x xs)
  then show ?case by (cases i) (auto simp: bindE_Inr)
qed

lemma mapE_cong: "(\<And>x. x \<in> set xs \<Longrightarrow> g x = h x) \<Longrightarrow> mapE g xs = mapE h xs"
  by (induction xs) auto

lemma zipWithE_Inr:
  "zipWithE g xs ys = Inr zs \<longleftrightarrow> length xs = length ys \<and> zs = map2 g xs ys"
  by (auto simp: zipWithE_def)

lemma store_other: "i \<notin> fst ` set ws \<Longrightarrow> store g ws i = g i"
  unfolding store_def by (induction ws arbitrary: g) auto

lemma store_last:
  "length idx = length vals \<Longrightarrow> c < length idx \<Longrightarrow>
   (\<forall>c'. c < c' \<longrightarrow> c' < length idx \<longrightarrow> idx ! c' \<noteq> idx ! c) \<Longrightarrow>
   store g (zip idx vals) (idx ! c) = vals ! c"
proof (induction idx arbitrary: vals c g)
  case Nil
  then show ?case by simp
next
  case (Cons a idx)
  then obtain v vs where vals: "vals = v # vs" by (cases vals) auto
  show ?case
  proof (cases c)
    case 0
    have "a \<notin> set idx"
    proof
      assume "a \<in> set idx"
      then obtain n where "n < length idx" "idx ! n = a" by (auto simp: in_set_conv_nth)
      with Cons.prems(3) 0 show False by (auto dest: spec[of _ "Suc n"])
    qed
    then have "a \<notin> fst ` set (zip idx vs)" by (auto dest: set_zip_leftD)
    then show ?thesis using 0 vals by (simp add: store_def store_other[unfolded store_def])
  next
    case (Suc n)
    have "store (g(a := v)) (zip idx vs) (idx ! n) = vs ! n"
      using Cons.prems vals Suc by (intro Cons.IH) auto
    then show ?thesis using Suc vals by (simp add: store_def)
  qed
qed

lemma update_Inr:
  "update self f = Inr (self', f') \<Longrightarrow>
   \<exists>vals idx. update_values self f = Inr vals \<and>
     mapE (field_index (shape f)) (istore self) = Inr idx \<and>
     length idx = length vals \<and> self' = self \<and> shape f' = shape f \<and>
     entries f' = store (entries f) (zip idx vals)"
  by (auto simp: update_def scatter_def bindE_Inr split: if_splits)

lemma gather_nth:
  assumes "gather f t = Inr xs" and "c < length t"
  shows "\<exists>j. field_index (shape f) (t ! c) = Inr j \<and> xs ! c = entries f j"
proof -
  from assms have "bindE (field_index (shape f) (t ! c)) (\<lambda>i. Inr (entries f i)) = Inr (xs ! c)"
    unfolding gather_def by (rule mapE_nth)
  then show ?thesis by (auto simp: bindE_Inr)
qed

lemma gather_length: "gather f t = Inr xs \<Longrightarrow> length xs = length t"
  by (auto simp: gather_def dest: mapE_length)

section \<open>The methods of an instance, step by step\<close>

lemma append_iload_Inr:
  "append_iload self g = Inr self1 \<Longrightarrow>
   \<exists>t. mapE g (istore self) = Inr t \<and> self1 = self\<lparr>iload := iload self @ [t]\<rparr>"
  by (auto simp: append_iload_def bindE_Inr)

lemma Bouzidi_set_iload_Inr:
  "Bouzidi_set_iload self = Inr self1 \<Longrightarrow>
   \<exists>t1 t2. length (distance self) = length (istore self) \<and>
     mapE (Bouzidi_load1 (stencil self)) (istore self) = Inr t1 \<and>
     mapE (Bouzidi_load2 (stencil self)) (zip (istore self) (distance self)) = Inr t2 \<and>
     self1 = self\<lparr>bm_s := map Bouzidi_s (distance self), iload := iload self @ [t1, t2]\<rparr>"
  by (auto simp: Bouzidi_set_iload_def bindE_Inr split: if_splits)

lemma bounce_back_load_Inr:
  "bounce_back_load st (k, x) = Inr col \<Longrightarrow>
   \<exists>ksym vk. getitem (get_symmetric st) k = Inr ksym \<and>
     getitem (get_all_velocities st) k = Inr vk \<and> length vk = length x \<and>
     col = (ksym, map2 (+) x vk)"
  by (auto simp: bounce_back_load_def bindE_Inr add_vec_def zipWithE_Inr)

lemma assign_rhs_Inr:
  assumes "assign_rhs g self = Inr self'"
  shows "\<exists>r. self' = self\<lparr>rhs := r\<rparr> \<and> length r = length (istore self) \<and>
     (\<forall>c<length (istore self). rhs_entry g self c = Inr (r ! c))"
proof -
  from assms obtain r where r: "mapE (rhs_entry g self) [0 ..< length (istore self)] = Inr r"
    and s: "self' = self\<lparr>rhs := r\<rparr>"
    by (auto simp: assign_rhs_def bindE_Inr split: if_splits)
  have len: "length r = length (istore self)" using mapE_length[OF r] by simp
  have "rhs_entry g self c = Inr (r ! c)" if "c < length (istore self)" for c
    using mapE_nth[OF r, of c] that by simp
  with s len show ?thesis by blast
qed

lemma rhs_entry_Inr:
  "rhs_entry g self c = Inr y \<Longrightarrow> istore self ! c = (k, x) \<Longrightarrow>
   \<exists>ksym a b. getitem (get_symmetric (stencil self)) k = Inr ksym \<and>
     feq_at (feq self) k c = Inr a \<and> feq_at (feq self) ksym c = Inr b \<and> y = g a b"
  by (auto simp: rhs_entry_def bindE_Inr)




lemma update_entry:
  assumes "update self f = Inr (self', f')"
    and "update_values self f = Inr vals"
    and "c < length (istore self)"
    and "field_index (shape f) (istore self ! c) = Inr i"
    and "\<forall>c'. c < c' \<longrightarrow> c' < length (istore self) \<longrightarrow>
           field_index (shape f) (istore self ! c') \<noteq> Inr i"
  shows "entries f' i = vals ! c"
proof -
  from update_Inr[OF assms(1)] assms(2) obtain idx where
    idx: "mapE (field_index (shape f)) (istore self) = Inr idx"
    and len: "length idx = length vals"
    and ent: "entries f' = store (entries f) (zip idx vals)"
    by auto
  have n: "length idx = length (istore self)" using mapE_length[OF idx] .
  have at: "field_index (shape f) (istore self ! c') = Inr (idx ! c')"
    if "c' < length (istore self)" for c'
    using mapE_nth[OF idx that] .
  have ic: "idx ! c = i" using at[OF assms(3)] assms(4) by simp
  have "\<forall>c'. c < c' \<longrightarrow> c' < length idx \<longrightarrow> idx ! c' \<noteq> idx ! c"
    using assms(5) at n ic by auto
  from store_last[OF len _ this, of "entries f"] assms(3) n ic ent show ?thesis by simp
qed

lemma bounce_back_values_nth:
  assumes "bounce_back_values self f = Inr vals" and "iload self = t # ts" and "c < length t"
  shows "\<exists>j. field_index (shape f) (t ! c) = Inr j \<and>
           vals ! c = entries f j + rhs self ! c"
proof -
  from assms(1,2) obtain f0 where g: "gather f t = Inr f0"
    and z: "length f0 = length (rhs self)" and v: "vals = map2 (+) f0 (rhs self)"
    by (auto simp: bounce_back_values_def bindE_Inr getitem_def zipWithE_Inr)
  from gather_nth[OF g assms(3)] obtain j where
    j: "field_index (shape f) (t ! c) = Inr j" "f0 ! c = entries f j" by auto
  have "c < length f0" using gather_length[OF g] assms(3) by simp
  with z v j show ?thesis by auto
qed

lemma anti_bounce_back_values_nth:
  assumes "anti_bounce_back_values self f = Inr vals" and "iload self = t # ts"
    and "c < length t"
  shows "\<exists>j. field_index (shape f) (t ! c) = Inr j \<and>
           vals ! c = - entries f j + rhs self ! c"
proof -
  from assms(1,2) obtain f0 where g: "gather f t = Inr f0"
    and z: "length f0 = length (rhs self)" and v: "vals = map2 (+) (map uminus f0) (rhs self)"
    by (auto simp: anti_bounce_back_values_def bindE_Inr getitem_def zipWithE_Inr)
  from gather_nth[OF g assms(3)] obtain j where
    j: "field_index (shape f) (t ! c) = Inr j" "f0 ! c = entries f j" by auto
  have "c < length f0" using gather_length[OF g] assms(3) by simp
  with z v j show ?thesis by auto
qed

lemma mapE_total: "(\<And>x. x \<in> set xs \<Longrightarrow> \<exists>y. g x = Inr y) \<Longrightarrow> \<exists>ys. mapE g xs = Inr ys"
proof (induction xs)
  case Nil
  then show ?case by simp
next
  case (Cons x xs)
  from Cons.prems[of x] obtain y where "g x = Inr y" by auto
  moreover from Cons obtain ys where "mapE g xs = Inr ys" by auto
  ultimately show ?case by simp
qed

lemma rhs_entry_total: "rhs_entry g self c = Inr y \<Longrightarrow> \<exists>y'. rhs_entry h self c = Inr y'"
  by (auto simp: rhs_entry_def bindE_Inr)

lemma rhs_entry_kind [simp]: "rhs_entry g (self\<lparr>kind := cls\<rparr>) = rhs_entry g self"
  by (rule ext) (simp add: rhs_entry_def)

lemma assign_rhs_total:
  assumes "assign_rhs g self = Inr self'"
  shows "\<exists>self''. assign_rhs h (self\<lparr>kind := cls\<rparr>) = Inr self''"
proof -
  from assms obtain r where r: "mapE (rhs_entry g self) [0 ..< length (istore self)] = Inr r"
    and l: "length r = length (rhs self)"
    by (auto simp: assign_rhs_def bindE_Inr split: if_splits)
  have "\<exists>y. rhs_entry h self c = Inr y" if "c \<in> set [0 ..< length (istore self)]" for c
  proof -
    from that have "c < length [0 ..< length (istore self)]" by simp
    from mapE_nth[OF r this] that show ?thesis by (auto dest: rhs_entry_total)
  qed
  then obtain r' where r': "mapE (rhs_entry h self) [0 ..< length (istore self)] = Inr r'"
    using mapE_total by blast
  have "length r' = length (rhs self)" using mapE_length[OF r'] mapE_length[OF r] l by simp
  with r' show ?thesis
    by (simp add: assign_rhs_def)
qed

text \<open>The two reflecting classes, from the derivation of the load table to the update.\<close>

lemma reflect_pipeline:
  assumes kind: "kind self0 = bounce_back \<or> kind self0 = anti_bounce_back"
    and fresh: "iload self0 = []"
    and si: "set_iload self0 = Inr self1"
    and sr: "set_rhs self1 = Inr self2"
    and up: "update self2 f = Inr (self3, f')"
    and c: "c < length (istore self0)"
    and col: "istore self0 ! c = (k, x)"
    and last: "\<forall>c'. c < c' \<longrightarrow> c' < length (istore self0) \<longrightarrow>
        field_index (shape f) (istore self0 ! c') \<noteq> field_index (shape f) (k, x)"
  shows "\<exists>ksym vk i j a b.
      getitem (get_symmetric (stencil self0)) k = Inr ksym \<and>
      getitem (get_all_velocities (stencil self0)) k = Inr vk \<and>
      length vk = length x \<and>
      map (\<lambda>t. t ! c) (iload self2) = [(ksym, map2 (+) x vk)] \<and>
      field_index (shape f) (k, x) = Inr i \<and>
      field_index (shape f) (ksym, map2 (+) x vk) = Inr j \<and>
      feq_at (feq self0) k c = Inr a \<and> feq_at (feq self0) ksym c = Inr b \<and>
      entries f' i =
        (if kind self0 = bounce_back then entries f j + (a - b) else - entries f j + (a + b))"
proof -
  from si kind have "append_iload self0 (bounce_back_load (stencil self0)) = Inr self1"
    by (auto simp: set_iload_def)
  from append_iload_Inr[OF this] obtain t
    where t: "mapE (bounce_back_load (stencil self0)) (istore self0) = Inr t"
    and s1: "self1 = self0\<lparr>iload := iload self0 @ [t]\<rparr>"
    by auto
  have lt: "length t = length (istore self0)" using mapE_length[OF t] .
  from mapE_nth[OF t c] col have "bounce_back_load (stencil self0) (k, x) = Inr (t ! c)" by simp
  from bounce_back_load_Inr[OF this] obtain ksym vk where
    ks: "getitem (get_symmetric (stencil self0)) k = Inr ksym"
    and vk: "getitem (get_all_velocities (stencil self0)) k = Inr vk" "length vk = length x"
    and tc: "t ! c = (ksym, map2 (+) x vk)" by auto
  let ?g = "if kind self0 = bounce_back then (-) else (+) :: real \<Rightarrow> real \<Rightarrow> real"
  from sr kind s1 have "assign_rhs ?g self1 = Inr self2"
    by (auto simp: set_rhs_def)
  from assign_rhs_Inr[OF this] obtain r where s2: "self2 = self1\<lparr>rhs := r\<rparr>"
    and rn: "\<forall>c<length (istore self1). rhs_entry ?g self1 c = Inr (r ! c)" by auto
  from rn c s1 have "rhs_entry ?g self1 c = Inr (r ! c)" by simp
  from rhs_entry_Inr[OF this, of k x] col s1 ks obtain a b where
    ab: "feq_at (feq self0) k c = Inr a" "feq_at (feq self0) ksym c = Inr b"
    and rc: "r ! c = ?g a b" by auto
  from update_Inr[OF up] obtain vals idx where vals: "update_values self2 f = Inr vals"
    and idx: "mapE (field_index (shape f)) (istore self2) = Inr idx" by auto
  have ist2: "istore self2 = istore self0" and il2: "iload self2 = [t]"
    and k2: "kind self2 = kind self0" and r2: "rhs self2 = r"
    using s1 s2 fresh by simp_all
  from mapE_nth[OF idx, of c] c col ist2 have i: "field_index (shape f) (k, x) = Inr (idx ! c)"
    by simp
  have lw: "\<forall>c'. c < c' \<longrightarrow> c' < length (istore self2) \<longrightarrow>
      field_index (shape f) (istore self2 ! c') \<noteq> Inr (idx ! c)"
    using last i ist2 by simp
  have ent: "entries f' (idx ! c) = vals ! c"
    using update_entry[OF up vals _ _ lw] c col ist2 i by simp
  have "\<exists>j. field_index (shape f) (t ! c) = Inr j \<and>
     vals ! c = (if kind self0 = bounce_back then entries f j + r ! c else - entries f j + r ! c)"
  proof (cases "kind self0 = bounce_back")
    case True
    with vals k2 have "bounce_back_values self2 f = Inr vals" by (simp add: update_values_def)
    from bounce_back_values_nth[OF this il2] c lt r2 True show ?thesis by simp
  next
    case False
    with kind have an: "kind self0 = anti_bounce_back" by simp
    with vals k2 have "anti_bounce_back_values self2 f = Inr vals"
      by (simp add: update_values_def)
    from anti_bounce_back_values_nth[OF this il2] c lt r2 an show ?thesis by simp
  qed
  then obtain j where j: "field_index (shape f) (t ! c) = Inr j"
    and vc: "vals ! c =
      (if kind self0 = bounce_back then entries f j + r ! c else - entries f j + r ! c)"
    by auto
  show ?thesis
    using ks vk tc i j ab ent vc rc il2 by (intro exI[of _ ksym] exI[of _ vk] exI[of _ "idx ! c"]
        exI[of _ j] exI[of _ a] exI[of _ b]) auto
qed

lemma update_intro:
  "update_values self f = Inr vals \<Longrightarrow>
   mapE (field_index (shape f)) (istore self) = Inr idx \<Longrightarrow> length idx = length vals \<Longrightarrow>
   \<exists>f'. update self f = Inr (self, f')"
  by (simp add: update_def scatter_def)

lemma reflect_values_Inr:
  assumes "kind self = bounce_back \<or> kind self = anti_bounce_back"
    and "update_values self f = Inr vals" and "iload self = t # ts"
  shows "\<exists>f0. gather f t = Inr f0 \<and> length f0 = length (rhs self) \<and> length vals = length f0"
  using assms
  by (auto simp: update_values_def bounce_back_values_def anti_bounce_back_values_def
      bindE_Inr getitem_def zipWithE_Inr)

lemma reflect_values_intro:
  assumes "kind self = bounce_back \<or> kind self = anti_bounce_back"
    and "iload self = t # ts" and "gather f t = Inr f0" and "length f0 = length (rhs self)"
  shows "\<exists>vals. update_values self f = Inr vals \<and> length vals = length f0"
  using assms
  by (auto simp: update_values_def bounce_back_values_def anti_bounce_back_values_def
      getitem_def zipWithE_def)

text \<open>Where one of the reflecting classes runs through, so does the other.\<close>

lemma reflect_switch:
  assumes kind: "kind self0 = bounce_back \<or> kind self0 = anti_bounce_back"
    and cls: "cls = bounce_back \<or> cls = anti_bounce_back"
    and fresh: "iload self0 = []"
    and si: "set_iload self0 = Inr self1"
    and sr: "set_rhs self1 = Inr self2"
    and up: "update self2 f = Inr (self3, f')"
  shows "\<exists>b1 b2 g'. set_iload (self0\<lparr>kind := cls\<rparr>) = Inr b1 \<and> iload b1 = iload self1 \<and>
      set_rhs b1 = Inr b2 \<and> update b2 f = Inr (b2, g')"
proof -
  from si kind have "append_iload self0 (bounce_back_load (stencil self0)) = Inr self1"
    by (auto simp: set_iload_def)
  from append_iload_Inr[OF this] obtain t
    where t: "mapE (bounce_back_load (stencil self0)) (istore self0) = Inr t"
    and s1: "self1 = self0\<lparr>iload := iload self0 @ [t]\<rparr>"
    by auto
  let ?b1 = "self1\<lparr>kind := cls\<rparr>"
  have b1: "set_iload (self0\<lparr>kind := cls\<rparr>) = Inr ?b1"
    using cls t s1 by (auto simp: set_iload_def append_iload_def)
  let ?g = "if kind self0 = bounce_back then (-) else (+) :: real \<Rightarrow> real \<Rightarrow> real"
  let ?h = "if cls = bounce_back then (-) else (+) :: real \<Rightarrow> real \<Rightarrow> real"
  from sr kind s1 have ar: "assign_rhs ?g self1 = Inr self2"
    by (auto simp: set_rhs_def)
  from assign_rhs_Inr[OF ar] obtain r where s2: "self2 = self1\<lparr>rhs := r\<rparr>"
    and lr: "length r = length (istore self1)" by auto
  from assign_rhs_total[OF ar, of ?h cls] obtain b2 where ab2: "assign_rhs ?h ?b1 = Inr b2"
    by auto
  then have b2: "set_rhs ?b1 = Inr b2" using cls by (auto simp: set_rhs_def)
  from assign_rhs_Inr[OF ab2] obtain r' where b2r: "b2 = ?b1\<lparr>rhs := r'\<rparr>"
    and lr': "length r' = length (istore ?b1)" by auto
  from update_Inr[OF up] obtain vals idx where vals: "update_values self2 f = Inr vals"
    and idx: "mapE (field_index (shape f)) (istore self2) = Inr idx"
    and li: "length idx = length vals" by auto
  have il2: "iload self2 = [t]" and k2: "kind self2 = bounce_back \<or> kind self2 = anti_bounce_back"
    using s1 s2 fresh kind by simp_all
  from reflect_values_Inr[OF k2 vals il2] obtain f0 where g: "gather f t = Inr f0"
    and lf: "length f0 = length (rhs self2)" and lv: "length vals = length f0" by auto
  have kb: "kind b2 = bounce_back \<or> kind b2 = anti_bounce_back" and ib: "iload b2 = [t]"
    and lb: "length f0 = length (rhs b2)" and isb: "istore b2 = istore self2"
    using b2r s1 s2 fresh cls lf lr lr' by simp_all
  from reflect_values_intro[OF kb ib g lb] obtain vals' where
    v': "update_values b2 f = Inr vals'" "length vals' = length f0" by auto
  from update_intro[OF v'(1), of idx] idx isb li lv v'(2) obtain g' where
    "update b2 f = Inr (b2, g')" by auto
  with b1 b2 show ?thesis by (intro exI[of _ ?b1] exI[of _ b2] exI[of _ g']) simp
qed

lemma set_iload_feq: "set_iload self = Inr self' \<Longrightarrow> feq self' = feq self"
  by (auto simp: set_iload_def append_iload_def Bouzidi_set_iload_def bindE_Inr
      split: method_type.splits if_splits)

lemma set_rhs_feq: "set_rhs self = Inr self' \<Longrightarrow> feq self' = feq self"
  by (auto simp: set_rhs_def assign_rhs_def bindE_Inr split: method_type.splits if_splits)

section \<open>The equilibrium table under \<^verbatim>\<open>prepare_rhs\<close>\<close>

lemma write_row_length [simp]: "length (write_row cs row new_row) = length row"
  unfolding write_row_def by (induction cs arbitrary: row new_row) (auto simp: zip_Cons1 split: list.splits)

lemma write_row_other: "c \<notin> set cs \<Longrightarrow> write_row cs row new_row ! c = row ! c"
  unfolding write_row_def
  by (induction cs arbitrary: row new_row) (auto simp: zip_Cons1 split: list.splits)

lemma write_columns_Inr:
  assumes "write_columns tab cs new = Inr tab'"
  shows "length tab' = length tab \<and>
    (\<forall>r<length tab. length (tab' ! r) = length (tab ! r) \<and>
       (\<forall>c. c \<notin> set cs \<longrightarrow> tab' ! r ! c = tab ! r ! c))"
  using assms
  by (auto simp: write_columns_def Let_def write_row_other split: if_splits)

lemma where_label_iff: "c \<in> set (where_label il key) \<longleftrightarrow> c < length il \<and> il ! c = key"
  by (auto simp: where_label_def)

text \<open>A round of \<^verbatim>\<open>prepare_rhs\<close> leaves the columns of the other labels as they are.\<close>

lemma prepare_rhs_label_other:
  assumes "prepare_rhs_label sim self kv = (e, self')"
    and "snd kv = None \<or> ilabel self ! c \<noteq> fst kv"
  shows "length (feq self') = length (feq self) \<and>
    (\<forall>r<length (feq self). feq self' ! r ! c = feq self ! r ! c)"
proof (cases "snd kv")
  case None
  with assms(1) show ?thesis by (simp add: prepare_rhs_label_def)
next
  case (Some val)
  with assms(2) have "c \<notin> set (where_label (ilabel self) (fst kv))"
    by (simp add: where_label_iff)
  with assms(1) Some show ?thesis
    unfolding prepare_rhs_label_def Let_def
    by (auto split: sum.splits dest!: write_columns_Inr)
qed


lemma np_unique_set [simp]: "set (np_unique xs) = set xs"
  by (simp add: np_unique_def)

lemma Boundary_method_init_Inr:
  assumes "Boundary_method_init cls ist il d st vbc = Inr self"
  shows "kind self = cls \<and> istore self = ist \<and> ilabel self = il \<and> distance self = d \<and>
    stencil self = st \<and> iload self = [] \<and> logged self = [] \<and>
    rhs self = replicate (length ist) 0 \<and>
    (\<forall>r<length (feq self). feq self ! r = replicate (length ist) 0) \<and>
    (\<forall>kv\<in>set (value_bc self). vbc (fst kv) = Some (snd kv))"
proof -
  from assms obtain nv vs where nv: "getitem (nv_ptr st) (- 1) = Inr nv"
    and vs: "mapE (\<lambda>k. bindE (dict_getitem vbc k) (\<lambda>x. Inr (k, x))) (np_unique il) = Inr vs"
    and self: "self = \<lparr> kind = cls, istore = ist,
           feq = replicate nv (replicate (length ist) 0),
           rhs = replicate (length ist) 0,
           ilabel = il, distance = d, stencil = st, iload = [],
           value_bc = vs, bm_s = replicate (length ist) 0, logged = [] \<rparr>"
    by (auto simp: Boundary_method_init_def bindE_Inr)
  have "vbc (fst kv) = Some (snd kv)" if "kv \<in> set vs" for kv
  proof -
    from that obtain n where n: "n < length vs" "vs ! n = kv" by (auto simp: in_set_conv_nth)
    with mapE_length[OF vs] have "n < length (np_unique il)" by simp
    from mapE_nth[OF vs this] obtain x2 where "vbc (np_unique il ! n) = Some x2"
      and "vs ! n = (np_unique il ! n, x2)"
      by (auto simp: bindE_Inr dict_getitem_def split: option.splits)
    with n show ?thesis by auto
  qed
  with self show ?thesis by simp
qed



section \<open>The Bouzidi load tables and values\<close>




section \<open>A second call of \<^verbatim>\<open>set_iload\<close>\<close>

lemma getitem_append_0: "xs \<noteq> [] \<Longrightarrow> getitem (xs @ ys) 0 = getitem xs 0"
  by (cases xs) (auto simp: getitem_def)

lemma getitem_append_1: "2 \<le> length xs \<Longrightarrow> getitem (xs @ ys) 1 = getitem xs 1"
  by (auto simp: getitem_def nth_append)

text \<open>What a call of \<^verbatim>\<open>set_iload\<close> appends depends on the geometry only.\<close>

lemma append_iload_again:
  assumes "append_iload self g = Inr self1"
  shows "\<exists>t. self1 = self\<lparr>iload := iload self @ [t]\<rparr> \<and>
    append_iload self1 g = Inr (self1\<lparr>iload := iload self1 @ [t]\<rparr>)"
proof -
  from append_iload_Inr[OF assms] obtain t where
    "mapE g (istore self) = Inr t" "self1 = self\<lparr>iload := iload self @ [t]\<rparr>" by auto
  then show ?thesis by (intro exI[of _ t]) (simp add: append_iload_def)
qed

lemma Bouzidi_set_iload_again:
  assumes "Bouzidi_set_iload self = Inr self1"
  shows "\<exists>t1 t2. self1 = self\<lparr>bm_s := map Bouzidi_s (distance self),
        iload := iload self @ [t1, t2]\<rparr> \<and>
    Bouzidi_set_iload self1 = Inr (self1\<lparr>iload := iload self1 @ [t1, t2]\<rparr>)"
proof -
  from Bouzidi_set_iload_Inr[OF assms] obtain t1 t2 where
    "length (distance self) = length (istore self)"
    "mapE (Bouzidi_load1 (stencil self)) (istore self) = Inr t1"
    "mapE (Bouzidi_load2 (stencil self)) (zip (istore self) (distance self)) = Inr t2"
    "self1 = self\<lparr>bm_s := map Bouzidi_s (distance self), iload := iload self @ [t1, t2]\<rparr>"
    by auto
  then show ?thesis
    by (intro exI[of _ t1] exI[of _ t2]) (simp add: Bouzidi_set_iload_def)
qed

lemma set_iload_again:
  assumes "set_iload self = Inr self1"
  shows "\<exists>new. new \<noteq> [] \<and> iload self1 = iload self @ new \<and>
    (kind self = Bouzidi_bounce_back \<or> kind self = Bouzidi_anti_bounce_back \<longrightarrow>
       length new = 2) \<and>
    set_iload self1 = Inr (self1\<lparr>iload := iload self1 @ new\<rparr>)"
proof (cases "kind self = Bouzidi_bounce_back \<or> kind self = Bouzidi_anti_bounce_back")
  case True
  with assms have "Bouzidi_set_iload self = Inr self1" by (auto simp: set_iload_def)
  from Bouzidi_set_iload_again[OF this] obtain t1 t2 where
    s1: "self1 = self\<lparr>bm_s := map Bouzidi_s (distance self), iload := iload self @ [t1, t2]\<rparr>"
    and again: "Bouzidi_set_iload self1 = Inr (self1\<lparr>iload := iload self1 @ [t1, t2]\<rparr>)"
    by auto
  have "kind self1 = kind self" using s1 by simp
  with True again have "set_iload self1 = Inr (self1\<lparr>iload := iload self1 @ [t1, t2]\<rparr>)"
    by (auto simp: set_iload_def)
  moreover have "iload self1 = iload self @ [t1, t2]" using s1 by simp
  ultimately show ?thesis by (intro exI[of _ "[t1, t2]"]) simp
next
  case False
  then obtain g where g: "set_iload self = append_iload self (g (stencil self))"
    and g': "\<And>s. kind s = kind self \<Longrightarrow> set_iload s = append_iload s (g (stencil s))"
    by (cases "kind self") (auto simp: set_iload_def)
  from assms g have "append_iload self (g (stencil self)) = Inr self1" by simp
  from append_iload_again[OF this] obtain t where
    s1: "self1 = self\<lparr>iload := iload self @ [t]\<rparr>"
    and again: "append_iload self1 (g (stencil self)) = Inr (self1\<lparr>iload := iload self1 @ [t]\<rparr>)"
    by auto
  have "kind self1 = kind self" "stencil self1 = stencil self" using s1 by simp_all
  with g'[of self1] again have "set_iload self1 = Inr (self1\<lparr>iload := iload self1 @ [t]\<rparr>)"
    by simp
  moreover have "iload self1 = iload self @ [t]" using s1 by simp
  ultimately show ?thesis using False by (intro exI[of _ "[t]"]) simp
qed

lemma update_values_more_loads:
  assumes "xs \<noteq> []"
    and "kind self = Bouzidi_bounce_back \<or> kind self = Bouzidi_anti_bounce_back \<longrightarrow>
      2 \<le> length xs"
    and "iload self = xs"
  shows "update_values (self\<lparr>iload := xs @ ys\<rparr>) f = update_values self f"
  using assms
  by (cases "kind self")
    (simp_all add: update_values_def bounce_back_values_def anti_bounce_back_values_def
      Bouzidi_bounce_back_values_def Bouzidi_anti_bounce_back_values_def Neumann_values_def
      getitem_append_0 getitem_append_1)

section \<open>A prescribed tuple\<close>

lemma mapE_getitem_nat:
  "list_all (\<lambda>c. c < length xs) cs \<Longrightarrow>
   mapE (\<lambda>c. getitem xs (int c)) cs = Inr (map (\<lambda>c. xs ! c) cs)"
  by (induction cs) (auto simp: getitem_def)

lemma where_label_bound: "list_all (\<lambda>c. c < length il) (where_label il key)"
  by (auto simp: where_label_def list_all_iff)

lemma prescribed_call_take:
  "2 < length vs \<Longrightarrow>
   snd (prescribed_call (PyTuple (take 2 vs))) = snd (prescribed_call (PyTuple vs))"
  by (auto simp: prescribed_call_def getitem_def split: pyobj.splits)

lemma prescribed_call_short:
  "length vs < 2 \<Longrightarrow> snd (prescribed_call (PyTuple vs)) = Inl IndexError"
  by (auto simp: prescribed_call_def getitem_def)

lemma prescribed_call_log:
  "fst (prescribed_call (PyTuple vs)) = (if length vs \<noteq> 2 then [arity_message] else [])"
  by (simp add: prescribed_call_def)

text \<open>A round of \<^verbatim>\<open>prepare_rhs\<close> on an instance whose tables have one entry per column.\<close>

lemma prepare_rhs_label_Some:
  assumes "length (ilabel self) = length (istore self)"
    and "length (distance self) = length (istore self)"
    and "coordinates sim (map (\<lambda>c. istore self ! c) (where_label (ilabel self) key))
           (map (\<lambda>c. distance self ! c) (where_label (ilabel self) key)) = Inr coords"
  shows "prepare_rhs_label sim self (key, Some val) =
     (case bindE (snd (prescribed_call val)) (\<lambda>cl. forcing sim cl coords) of
        Inl e \<Rightarrow> (Some e, self\<lparr>logged := logged self @ fst (prescribed_call val)\<rparr>)
      | Inr new \<Rightarrow>
          (case write_columns (feq self) (where_label (ilabel self) key) new of
             Inl e \<Rightarrow> (Some e, self\<lparr>logged := logged self @ fst (prescribed_call val)\<rparr>)
           | Inr tab \<Rightarrow>
               (None, self\<lparr>logged := logged self @ fst (prescribed_call val), feq := tab\<rparr>)))"
proof -
  have a: "mapE (\<lambda>c. getitem (istore self) (int c)) (where_label (ilabel self) key) =
      Inr (map (\<lambda>c. istore self ! c) (where_label (ilabel self) key))"
    using where_label_bound[of "ilabel self" key] assms(1) by (intro mapE_getitem_nat) simp
  have b: "mapE (\<lambda>c. getitem (distance self) (int c)) (where_label (ilabel self) key) =
      Inr (map (\<lambda>c. distance self ! c) (where_label (ilabel self) key))"
    using where_label_bound[of "ilabel self" key] assms(1,2) by (intro mapE_getitem_nat) simp
  show ?thesis
    by (simp add: prepare_rhs_label_def a b assms(3) Let_def split: sum.splits)
qed

section \<open>The tables of \<^verbatim>\<open>Boundary\<close> as grouped contributions\<close>

lemma set_first_seen [simp]: "set (first_seen xs) = set xs"
  by (induction xs) auto

lemma distinct_first_seen [simp]: "distinct (first_seen xs)"
  by (induction xs) auto

lemma first_seen_snoc:
  "first_seen (xs @ [v]) = (if v \<in> set xs then first_seen xs else first_seen xs @ [v])"
  by (induction xs) auto

lemma map_of_tagged:
  "map_of (map (\<lambda>u. (u, F u)) ks) v = (if v \<in> set ks then Some (F v) else None)"
  by (induction ks) auto

lemma setitem_tagged:
  "distinct ks \<Longrightarrow>
   setitem v x (map (\<lambda>u. (u, F u)) ks) =
     (if v \<in> set ks then map (\<lambda>u. (u, if u = v then x else F u)) ks
      else map (\<lambda>u. (u, F u)) ks @ [(v, x)])"
  by (induction ks) auto

lemma columns_of_snoc:
  "columns_of u (cs @ [(v, ist, il, di)]) =
     (if u = v then columns_of u cs @ ist else columns_of u cs)"
  by (simp add: columns_of_def)

lemma labels_of_snoc:
  "labels_of u (cs @ [(v, ist, il, di)]) =
     (if u = v then labels_of u cs @ il else labels_of u cs)"
  by (simp add: labels_of_def)

lemma distances_of_snoc:
  "distances_of u (cs @ [(v, ist, il, di)]) =
     (if u = v then distances_of u cs @ di else distances_of u cs)"
  by (simp add: distances_of_def)

lemma columns_of_unseen: "v \<notin> fst ` set cs \<Longrightarrow> columns_of v cs = []"
proof -
  assume "v \<notin> fst ` set cs"
  then have "filter (\<lambda>c. fst c = v) cs = []" by (force simp: filter_empty_conv)
  then show ?thesis by (simp add: columns_of_def)
qed

lemma labels_of_unseen: "v \<notin> fst ` set cs \<Longrightarrow> labels_of v cs = []"
proof -
  assume "v \<notin> fst ` set cs"
  then have "filter (\<lambda>c. fst c = v) cs = []" by (force simp: filter_empty_conv)
  then show ?thesis by (simp add: labels_of_def)
qed

lemma distances_of_unseen: "v \<notin> fst ` set cs \<Longrightarrow> distances_of v cs = []"
proof -
  assume "v \<notin> fst ` set cs"
  then have "filter (\<lambda>c. fst c = v) cs = []" by (force simp: filter_empty_conv)
  then show ?thesis by (simp add: distances_of_def)
qed

text \<open>The step of lines 110-117 on tables that are grouped contributions.\<close>

lemma add_columns_grouped:
  "add_columns (grouped cs vb) v ist il di = Inr (grouped (cs @ [(v, ist, il, di)]) vb)"
proof (cases "v \<in> fst ` set cs")
  case True
  then have mem: "v \<in> set (first_seen (map fst cs))" by simp
  show ?thesis
    using mem True
    by (simp add: add_columns_def grouped_def map_of_tagged dict_getitem_def setitem_tagged
        first_seen_snoc columns_of_snoc labels_of_snoc distances_of_snoc)
next
  case False
  then have mem: "v \<notin> set (first_seen (map fst cs))" by simp
  have ne: "\<not> (\<exists>x\<in>set cs. fst x = v)" using False by force
  show ?thesis
    using mem False ne
    by (simp add: add_columns_def grouped_def map_of_tagged dict_getitem_def setitem_tagged
        first_seen_snoc columns_of_snoc labels_of_snoc distances_of_snoc
        columns_of_unseen labels_of_unseen distances_of_unseen)
qed

lemma velocity_step_grouped:
  "velocity_step st bvs label k v (grouped cs vb) e =
     bindE (velocity_columns st bvs label k v e) (\<lambda>new. Inr (grouped (cs @ new) vb))"
proof -
  have "bindE (bindE m g) h = bindE m (\<lambda>x. bindE (g x) h)" for m :: "py_error + 'x"
    and g :: "'x \<Rightarrow> py_error + 'y" and h :: "'y \<Rightarrow> py_error + 'z"
    by (cases m) auto
  note assoc = this
  show ?thesis
    unfolding velocity_step_def velocity_columns_def
    by (auto simp: assoc add_columns_grouped intro!: arg_cong2[where f = bindE] ext)
qed

lemma foldE_grouped:
  assumes "\<And>cs x. g (G cs) x = bindE (h x) (\<lambda>new. Inr (G (cs @ new)))"
  shows "foldE g xs (G cs) = bindE (mapE h xs) (\<lambda>ys. Inr (G (cs @ concat ys)))"
proof (induction xs arbitrary: cs)
  case Nil
  then show ?case by simp
next
  case (Cons x xs)
  show ?case
  proof (cases "h x")
    case (Inl e)
    then show ?thesis by (simp add: assms)
  next
    case (Inr new)
    then show ?thesis
      using Cons.IH[of "cs @ new"] by (cases "mapE h xs") (simp_all add: assms)
  qed
qed

lemma family_step_grouped:
  "family_step st bvs label (grouped cs vb) kv =
     bindE (family_columns st bvs label kv) (\<lambda>new. Inr (grouped (cs @ new) vb))"
proof (cases "getitem (num st) (fst kv)")
  case (Inl e)
  then show ?thesis by (simp add: family_step_def family_columns_def)
next
  case (Inr nums)
  have "foldE (velocity_step st bvs label (fst kv) (snd kv)) (enumerate 0 nums) (grouped cs vb) =
      bindE (mapE (velocity_columns st bvs label (fst kv) (snd kv)) (enumerate 0 nums))
        (\<lambda>ys. Inr (grouped (cs @ concat ys) vb))"
    by (rule foldE_grouped[where G = "\<lambda>cs. grouped cs vb"]) (rule velocity_step_grouped)
  with Inr show ?thesis
    by (cases "mapE (velocity_columns st bvs label (fst kv) (snd kv)) (enumerate 0 nums)")
      (simp_all add: family_step_def family_columns_def)
qed

lemma grouped_value_bc [simp]: "(grouped cs vb)\<lparr>t_value_bc := vb'\<rparr> = grouped cs vb'"
  by (simp add: grouped_def)

lemma t_value_bc_grouped [simp]: "t_value_bc (grouped cs vb) = vb"
  by (simp add: grouped_def)

lemma label_step_grouped:
  "\<exists>vb'. label_step st bvs db (grouped cs vb) label =
     bindE (label_columns st bvs db label) (\<lambda>new. Inr (grouped (cs @ new) vb'))"
proof (cases "label = - 1 \<or> label = - 2")
  case True
  then show ?thesis by (intro exI[of _ vb]) (auto simp: label_step_def label_columns_def)
next
  case False
  show ?thesis
  proof (cases "dict_getitem db label")
    case (Inl e)
    with False show ?thesis by (simp add: label_step_def label_columns_def)
  next
    case entry: (Inr entry)
    show ?thesis
    proof (cases "dict_getitem bc_method entry")
      case (Inl e)
      with False entry show ?thesis by (simp add: label_step_def label_columns_def)
    next
      case (Inr methods)
      let ?vb = "vb(label \<mapsto> bc_value entry)"
      have "foldE (family_step st bvs label) methods (grouped cs ?vb) =
          bindE (mapE (family_columns st bvs label) methods)
            (\<lambda>ys. Inr (grouped (cs @ concat ys) ?vb))"
        by (rule foldE_grouped[where G = "\<lambda>cs. grouped cs ?vb"]) (rule family_step_grouped)
      with False entry Inr show ?thesis
        by (intro exI[of _ ?vb])
          (cases "mapE (family_columns st bvs label) methods",
            simp_all add: label_step_def label_columns_def)
    qed
  qed
qed

lemma labels_grouped:
  "foldE (label_step st bvs db) labels (grouped cs vb) = Inr acc \<Longrightarrow>
   \<exists>ys vb'. mapE (label_columns st bvs db) labels = Inr ys \<and>
     acc = grouped (cs @ concat ys) vb'"
proof (induction labels arbitrary: cs vb)
  case Nil
  then show ?case by auto
next
  case (Cons l labels)
  from label_step_grouped[of st bvs db cs vb l] obtain vb1 where
    step: "label_step st bvs db (grouped cs vb) l =
      bindE (label_columns st bvs db l) (\<lambda>new. Inr (grouped (cs @ new) vb1))" by auto
  show ?case
  proof (cases "label_columns st bvs db l")
    case (Inl e)
    with Cons.prems step show ?thesis by simp
  next
    case (Inr new)
    with Cons.prems step have
      "foldE (label_step st bvs db) labels (grouped (cs @ new) vb1) = Inr acc" by simp
    from Cons.IH[OF this] obtain ys vb' where
      "mapE (label_columns st bvs db) labels = Inr ys" "acc = grouped ((cs @ new) @ concat ys) vb'"
      by auto
    with Inr show ?thesis by (intro exI[of _ "new # ys"] exI[of _ vb']) simp
  qed
qed

lemma build_tables_grouped:
  assumes "build_tables dmn d bvs = Inr acc"
  shows "\<exists>cs vb. traversal dmn d bvs = Inr cs \<and> acc = grouped cs vb"
proof -
  have e: "empty_tables = grouped [] Map.empty" by (simp add: empty_tables_def grouped_def)
  from assms have "foldE (label_step (dom_stencil dmn) bvs (dico_bound_of d))
      (list_of_labels dmn) (grouped [] Map.empty) = Inr acc"
    by (simp add: build_tables_def e)
  from labels_grouped[OF this] show ?thesis by (auto simp: traversal_def)
qed

lemma Boundary_init_grouped:
  assumes "Boundary_init dmn d = Inr b"
  shows "\<exists>bvs cs. build_bv dmn = Inr bvs \<and> traversal dmn d bvs = Inr cs \<and>
     map kind (methods b) = first_seen (map fst cs) \<and>
     (\<forall>n<length (methods b).
        istore (methods b ! n) = columns_of (kind (methods b ! n)) cs \<and>
        ilabel (methods b ! n) = labels_of (kind (methods b ! n)) cs \<and>
        distance (methods b ! n) = distances_of (kind (methods b ! n)) cs)"
proof -
  from assms obtain bvs acc ms where bvs: "build_bv dmn = Inr bvs"
    and acc: "build_tables dmn d bvs = Inr acc"
    and ms: "mapE (make_method (dom_stencil dmn) acc) (t_istore acc) = Inr ms"
    and b: "methods b = ms"
    by (auto simp: Boundary_init_def bindE_Inr)
  from build_tables_grouped[OF acc] obtain cs vb where
    cs: "traversal dmn d bvs = Inr cs" and g: "acc = grouped cs vb" by auto
  let ?ks = "first_seen (map fst cs)"
  have len: "length ms = length ?ks" using mapE_length[OF ms] g by (simp add: grouped_def)
  have one: "kind (ms ! n) = ?ks ! n \<and> istore (ms ! n) = columns_of (?ks ! n) cs \<and>
      ilabel (ms ! n) = labels_of (?ks ! n) cs \<and> distance (ms ! n) = distances_of (?ks ! n) cs"
    if n: "n < length ?ks" for n
  proof -
    have tn: "t_istore acc ! n = (?ks ! n, columns_of (?ks ! n) cs)"
      using n g by (simp add: grouped_def)
    have mem: "?ks ! n \<in> set ?ks" using n by (rule nth_mem)
    from mapE_nth[OF ms, of n] n g tn
    have "make_method (dom_stencil dmn) acc (?ks ! n, columns_of (?ks ! n) cs) = Inr (ms ! n)"
      by (simp add: grouped_def)
    then have "Boundary_method_init (?ks ! n) (columns_of (?ks ! n) cs) (labels_of (?ks ! n) cs)
        (distances_of (?ks ! n) cs) (dom_stencil dmn) (t_value_bc acc) = Inr (ms ! n)"
      using mem g
      by (auto simp: make_method_def bindE_Inr grouped_def map_of_tagged dict_getitem_def
          split: if_splits)
    from Boundary_method_init_Inr[OF this] show ?thesis by simp
  qed
  have kinds: "map kind ms = ?ks"
    using len one by (intro nth_equalityI) simp_all
  have "\<forall>n<length ms.
        istore (ms ! n) = columns_of (kind (ms ! n)) cs \<and>
        ilabel (ms ! n) = labels_of (kind (ms ! n)) cs \<and>
        distance (ms ! n) = distances_of (kind (ms ! n)) cs"
    using one len by simp
  with bvs cs kinds b show ?thesis by blast
qed

lemma segment_methods:
  "map_sum id (\<lambda>b. map (\<lambda>m. (kind m, istore m, ilabel m, distance m)) (methods b))
     (Boundary_init segment walls) =
   Inr [(bounce_back, [(1, [0]), (2, [3])], [0, 1], [3 / 4, 1 / 4])]"
  by code_simp

lemma segment_traversal:
  "bindE (build_bv segment) (traversal segment walls) =
   Inr [(bounce_back, [(1, [0])], [0], [3 / 4]), (bounce_back, [(2, [3])], [1], [1 / 4])]"
  by code_simp

section \<open>Failures and labels of \<^verbatim>\<open>Boundary\<close>\<close>

lemma bindE_Inl: "bindE m g = Inl e \<longleftrightarrow> m = Inl e \<or> (\<exists>x. m = Inr x \<and> g x = Inl e)"
  by (cases m) auto

lemma getitem_Inl: "getitem xs i = Inl e \<Longrightarrow> e = IndexError"
  by (auto simp: getitem_def split: if_splits)

lemma dict_getitem_Inl: "dict_getitem m k = Inl e \<Longrightarrow> e = KeyError"
  by (auto simp: dict_getitem_def split: option.splits)

lemma foldE_Inl:
  assumes "foldE g xs s = Inl e" and "\<And>s x. g s x = Inl e \<Longrightarrow> P"
  shows P
  using assms
proof (induction xs arbitrary: s)
  case Nil
  then show ?case by simp
next
  case (Cons x xs)
  then show ?case by (cases "g s x") auto
qed

lemma foldE_fails:
  assumes "x \<in> set xs" and "\<And>s. \<exists>e. g s x = Inl e"
  shows "\<exists>e. foldE g xs s = Inl e"
  using assms(1)
proof (induction xs arbitrary: s)
  case Nil
  then show ?case by simp
next
  case (Cons y ys)
  show ?case
  proof (cases "g s y")
    case (Inl e)
    then show ?thesis by simp
  next
    case (Inr s')
    show ?thesis
    proof (cases "y = x")
      case True
      with assms(2)[of s] Inr show ?thesis by simp
    next
      case False
      with Cons.prems have "x \<in> set ys" by simp
      from Cons.IH[OF this, of s'] Inr show ?thesis by simp
    qed
  qed
qed

lemma add_columns_Inl: "add_columns acc v a b c = Inl e \<Longrightarrow> e = KeyError"
  by (auto simp: add_columns_def bindE_Inl split: option.splits dest: dict_getitem_Inl)

lemma velocity_step_Inl:
  "velocity_step st bvs label k v acc x = Inl e \<Longrightarrow> e = KeyError \<or> e = IndexError"
  by (auto simp: velocity_step_def bindE_Inl split: if_splits
      dest: dict_getitem_Inl getitem_Inl add_columns_Inl)

lemma family_step_Inl:
  "family_step st bvs label acc kv = Inl e \<Longrightarrow> e = KeyError \<or> e = IndexError"
  by (auto simp: family_step_def bindE_Inl dest: getitem_Inl elim: foldE_Inl
      dest: velocity_step_Inl)

lemma label_step_Inl:
  "label_step st bvs db acc label = Inl e \<Longrightarrow> e = KeyError \<or> e = IndexError"
  by (auto simp: label_step_def bindE_Inl split: if_splits dest: dict_getitem_Inl
      elim!: foldE_Inl dest: family_step_Inl)

lemma build_tables_Inl:
  "build_tables dmn d bvs = Inl e \<Longrightarrow> e = KeyError \<or> e = IndexError"
  unfolding build_tables_def by (erule foldE_Inl) (rule label_step_Inl)

lemma label_step_unconfigured:
  assumes "l \<noteq> - 1" and "l \<noteq> - 2"
    and "db l = None \<or> (\<exists>entry. db l = Some entry \<and> bc_method entry = None)"
  shows "label_step st bvs db acc l = Inl KeyError"
  using assms by (auto simp: label_step_def dict_getitem_def)

lemma mapE_set:
  "mapE g xs = Inr ys \<Longrightarrow> y \<in> set ys \<Longrightarrow> \<exists>x\<in>set xs. g x = Inr y"
proof (induction xs arbitrary: ys)
  case Nil
  then show ?case by simp
next
  case (Cons x xs)
  then show ?case by (auto simp: bindE_Inr)
qed

lemma velocity_columns_labels:
  "velocity_columns st bvs label k v x = Inr cs \<Longrightarrow> c \<in> set cs \<Longrightarrow>
   set (fst (snd (snd c))) \<subseteq> {label}"
  by (auto simp: velocity_columns_def bindE_Inr split: if_splits)

lemma family_columns_labels:
  assumes "family_columns st bvs label kv = Inr cs" and "c \<in> set cs"
  shows "set (fst (snd (snd c))) \<subseteq> {label}"
proof -
  from assms(1) obtain nums xs where
    xs: "mapE (velocity_columns st bvs label (fst kv) (snd kv)) (enumerate 0 nums) = Inr xs"
    and cs: "cs = concat xs"
    by (auto simp: family_columns_def bindE_Inr)
  from assms(2) cs obtain ys where ys: "ys \<in> set xs" "c \<in> set ys" by auto
  from mapE_set[OF xs ys(1)] obtain x where
    "velocity_columns st bvs label (fst kv) (snd kv) x = Inr ys" by auto
  from velocity_columns_labels[OF this ys(2)] show ?thesis .
qed

lemma label_columns_labels:
  assumes "label_columns st bvs db label = Inr cs" and "c \<in> set cs"
  shows "set (fst (snd (snd c))) \<subseteq> {label} \<and> label \<noteq> - 1 \<and> label \<noteq> - 2"
proof -
  from assms have nr: "label \<noteq> - 1" "label \<noteq> - 2"
    by (auto simp: label_columns_def split: if_splits)
  with assms(1) obtain methods xs where
    xs: "mapE (family_columns st bvs label) methods = Inr xs" and cs: "cs = concat xs"
    by (auto simp: label_columns_def bindE_Inr)
  from assms(2) cs obtain ys where ys: "ys \<in> set xs" "c \<in> set ys" by auto
  from mapE_set[OF xs ys(1)] obtain kv where "family_columns st bvs label kv = Inr ys" by auto
  from family_columns_labels[OF this ys(2)] nr show ?thesis by simp
qed

lemma traversal_labels:
  assumes "traversal dmn d bvs = Inr cs" and "c \<in> set cs"
  shows "- 1 \<notin> set (fst (snd (snd c))) \<and> - 2 \<notin> set (fst (snd (snd c)))"
proof -
  from assms(1) obtain xs where
    xs: "mapE (label_columns (dom_stencil dmn) bvs (dico_bound_of d)) (list_of_labels dmn) = Inr xs"
    and cs: "cs = concat xs"
    by (auto simp: traversal_def bindE_Inr)
  from assms(2) cs obtain ys where ys: "ys \<in> set xs" "c \<in> set ys" by auto
  from mapE_set[OF xs ys(1)] obtain l where
    "label_columns (dom_stencil dmn) bvs (dico_bound_of d) l = Inr ys" by auto
  from label_columns_labels[OF this ys(2)] show ?thesis by auto
qed

lemma labels_of_mem: "l \<in> set (labels_of v cs) \<Longrightarrow> \<exists>c\<in>set cs. l \<in> set (fst (snd (snd c)))"
  by (force simp: labels_of_def)

lemma traversal_reserved:
  assumes "list_all (\<lambda>l. l = - 1 \<or> l = - 2) (list_of_labels dmn)"
  shows "traversal dmn d bvs = Inr []"
proof -
  have "mapE (label_columns st bvs db) ls = Inr (map (\<lambda>l. []) ls)"
    if "list_all (\<lambda>l. l = - 1 \<or> l = - 2) ls" for st bvs db and ls :: "int list"
    using that by (induction ls) (auto simp: label_columns_def)
  from this[OF assms] show ?thesis by (simp add: traversal_def)
qed

lemma segment_left_wall_only:
  "map_sum id (\<lambda>b. ()) (Boundary_init segment left_wall_only) = Inl KeyError"
  by code_simp

lemma segment_build_bv: "map_sum id (\<lambda>b. ()) (build_bv segment) = Inr ()"
  by code_simp

lemma segment_reserved_only:
  "map_sum id (\<lambda>b. length (methods b))
     (Boundary_init (segment\<lparr>list_of_labels := [- 1, - 2]\<rparr>) walls) = Inr 0"
  by code_simp

section \<open>Bouzidi bounce-back\<close>



section \<open>Bounce-back\<close>



section \<open>The reflecting classes\<close>

text \<open>
  Claim C3: an \<^verbatim>\<open>anti_bounce_back\<close> instance whose load table has been derived and whose
  forcing term has been set writes, at the destination column \<open>(k, x)\<close>, the value
  \<open>- f[k*, x + v[k]] + (feq[k] + feq[k*])\<close>, where \<open>k*\<close> is the symmetric index of \<open>k\<close>;
  its load table is the one \<^verbatim>\<open>bounce_back\<close> derives, and \<^verbatim>\<open>bounce_back\<close> on the same tables
  writes \<open>f[k*, x + v[k]] + (feq[k] - feq[k*])\<close>. With \<open>feq[k] = 2\<close>, \<open>feq[k*] = 1\<close> and a
  loaded value 0 the two write 3 and 1. The value is the one found in the field after the
  call when no later column of the table addresses the same entry (NumPy stores the
  columns in order).
\<close>

theorem anti_bounce_back_update_rule:
  assumes "kind self0 = anti_bounce_back" and "iload self0 = []"
    and "set_iload self0 = Inr self1"
    and "set_rhs self1 = Inr self2"
    and "update self2 f = Inr (self3, f')"
    and "c < length (istore self0)"
    and "istore self0 ! c = (k, x)"
    and "\<forall>c'. c < c' \<longrightarrow> c' < length (istore self0) \<longrightarrow>
        field_index (shape f) (istore self0 ! c') \<noteq> field_index (shape f) (k, x)"
  shows "\<exists>ksym vk i j a b b1 b2 g'.
      getitem (get_symmetric (stencil self0)) k = Inr ksym \<and>
      getitem (get_all_velocities (stencil self0)) k = Inr vk \<and>
      length vk = length x \<and>
      map (\<lambda>t. t ! c) (iload self2) = [(ksym, map2 (+) x vk)] \<and>
      field_index (shape f) (k, x) = Inr i \<and>
      field_index (shape f) (ksym, map2 (+) x vk) = Inr j \<and>
      feq_at (feq self2) k c = Inr a \<and> feq_at (feq self2) ksym c = Inr b \<and>
      entries f' i = - entries f j + (a + b) \<and>
      set_iload (self0\<lparr>kind := bounce_back\<rparr>) = Inr b1 \<and> iload b1 = iload self1 \<and>
      set_rhs b1 = Inr b2 \<and> update b2 f = Inr (b2, g') \<and>
      entries g' i = entries f j + (a - b) \<and>
      (a = 2 \<and> b = 1 \<and> entries f j = 0 \<longrightarrow> entries g' i = 1 \<and> entries f' i = 3)"
proof -
  have kd: "kind self0 = bounce_back \<or> kind self0 = anti_bounce_back" using assms(1) by simp
  have fq: "feq self2 = feq self0"
    using set_iload_feq[OF assms(3)] set_rhs_feq[OF assms(4)] by simp
  from reflect_pipeline[OF kd assms(2-8)] assms(1) obtain ksym vk i j a b where
    A: "getitem (get_symmetric (stencil self0)) k = Inr ksym"
      "getitem (get_all_velocities (stencil self0)) k = Inr vk"
      "length vk = length x"
      "map (\<lambda>t. t ! c) (iload self2) = [(ksym, map2 (+) x vk)]"
      "field_index (shape f) (k, x) = Inr i"
      "field_index (shape f) (ksym, map2 (+) x vk) = Inr j"
      "feq_at (feq self0) k c = Inr a" "feq_at (feq self0) ksym c = Inr b"
      "entries f' i = - entries f j + (a + b)"
    by auto
  from reflect_switch[OF kd _ assms(2-5), of bounce_back] obtain b1 b2 g' where
    B: "set_iload (self0\<lparr>kind := bounce_back\<rparr>) = Inr b1" "iload b1 = iload self1"
      "set_rhs b1 = Inr b2" "update b2 f = Inr (b2, g')"
    by auto
  have "kind (self0\<lparr>kind := bounce_back\<rparr>) = bounce_back \<or>
      kind (self0\<lparr>kind := bounce_back\<rparr>) = anti_bounce_back" by simp
  from reflect_pipeline[OF this _ B(1) B(3) B(4), of c k x] assms(2,6,7,8) A(1,2,5,6,7,8)
  have C: "entries g' i = entries f j + (a - b)"
    by auto
  show ?thesis
    using A B C fq
    by (intro exI[of _ ksym] exI[of _ vk] exI[of _ i] exI[of _ j] exI[of _ a] exI[of _ b]
        exI[of _ b1] exI[of _ b2] exI[of _ g']) simp
qed

theorem anti_bounce_back_update_rule_witness:
  "\<exists>b1 b2 g'.
     set_iload ((sign_check anti_bounce_back)\<lparr>kind := bounce_back\<rparr>) = Inr b1 \<and>
     set_rhs b1 = Inr b2 \<and> update b2 (constant_field 0) = Inr (b2, g') \<and>
     entries g' [1, 0] = 1 \<and>
     update ((sign_check anti_bounce_back)\<lparr>iload := [[(2, [1])]], rhs := [3]\<rparr>)
       (constant_field 0) =
       Inr ((sign_check anti_bounce_back)\<lparr>iload := [[(2, [1])]], rhs := [3]\<rparr>,
            (constant_field 0)\<lparr>entries := (entries (constant_field 0))([1, 0] := 3)\<rparr>) \<and>
     ((entries (constant_field 0))([1, 0] := 3)) [1, 0] = 3"
proof -
  let ?s0 = "sign_check anti_bounce_back"
  let ?s1 = "?s0\<lparr>iload := [[(2, [1])]]\<rparr>"
  let ?s2 = "?s0\<lparr>iload := [[(2, [1])]], rhs := [3]\<rparr>"
  let ?f = "constant_field 0"
  let ?f' = "?f\<lparr>entries := (entries ?f)([1, 0] := 3)\<rparr>"
  have h1: "kind ?s0 = anti_bounce_back" and h2: "iload ?s0 = []"
    by (simp_all add: sign_check_def)
  have h3: "set_iload ?s0 = Inr ?s1"
    by (simp add: sign_check_def set_iload_def append_iload_def bounce_back_load_def D1Q3_def
        getitem_def add_vec_def zipWithE_def)
  have h4: "set_rhs ?s1 = Inr ?s2"
    by (simp add: sign_check_def set_rhs_def assign_rhs_def rhs_entry_def feq_at_def D1Q3_def
        getitem_def)
  have h5: "update ?s2 ?f = Inr (?s2, ?f')"
    by (simp add: sign_check_def update_def update_values_def anti_bounce_back_values_def
        gather_def scatter_def field_index_def axis_index_def constant_field_def getitem_def
        zipWithE_def store_def)
  have h6: "0 < length (istore ?s0)" and h7: "istore ?s0 ! 0 = (1, [0])"
    by (simp_all add: sign_check_def)
  have h8: "\<forall>c'. 0 < c' \<longrightarrow> c' < length (istore ?s0) \<longrightarrow>
      field_index (shape ?f) (istore ?s0 ! c') \<noteq> field_index (shape ?f) (1, [0])"
    by (simp add: sign_check_def)
  from anti_bounce_back_update_rule[OF h1 h2 h3 h4 h5 h6 h7 h8]
  obtain ksym vk i j a b b1 b2 g' where
    A: "getitem (get_symmetric (stencil ?s0)) 1 = Inr ksym"
      "getitem (get_all_velocities (stencil ?s0)) 1 = Inr vk"
      "field_index (shape ?f) (1, [0]) = Inr i"
      "field_index (shape ?f) (ksym, map2 (+) [0] vk) = Inr j"
      "feq_at (feq ?s2) 1 0 = Inr a" "feq_at (feq ?s2) ksym 0 = Inr b"
      "set_iload (?s0\<lparr>kind := bounce_back\<rparr>) = Inr b1"
      "set_rhs b1 = Inr b2" "update b2 ?f = Inr (b2, g')"
      "a = 2 \<and> b = 1 \<and> entries ?f j = 0 \<longrightarrow> entries g' i = 1 \<and> entries ?f' i = 3"
    by blast
  from A(1) have ks: "ksym = 2" by (simp add: sign_check_def D1Q3_def getitem_def)
  from A(3) have i: "i = [1, 0]"
    by (simp add: field_index_def axis_index_def constant_field_def)
  from A(5) have a: "a = 2" by (simp add: sign_check_def feq_at_def getitem_def)
  from A(6) ks have b: "b = 1" by (simp add: sign_check_def feq_at_def getitem_def)
  have "entries ?f j = 0" by (simp add: constant_field_def)
  with A(10) a b i have "entries g' [1, 0] = 1" by simp
  with A(7,8,9) h5 show ?thesis by auto
qed

section \<open>The load table of \<^verbatim>\<open>Neumann_z\<close>\<close>

text \<open>
  Claim C4 reads: \<^verbatim>\<open>Neumann_z.set_iload\<close> offsets only the z axis of the destination's
  spatial index by the z component of the velocity. The code adds the z component to row 1
  of the spatial rows, the y axis: for the destination \<open>(5, [4, 4, 4])\<close> and the velocity
  \<open>[0, 0, 1]\<close> the load column is \<open>(5, [4, 5, 4])\<close>, not \<open>(5, [4, 4, 5])\<close>.
\<close>

theorem Neumann_z_set_iload_moves_y:
  "map_sum id iload (set_iload Neumann_z_instance) = Inr [[(5, [4, 5, 4])]] \<and>
   map_sum id iload (set_iload Neumann_z_instance) \<noteq> Inr [[(5, [4, 4, 5])]]"
  by (simp add: set_iload_def Neumann_z_instance_def append_iload_def Neumann_z_load_def
      Neumann_axis_load_def D3Q7_def getitem_def)

section \<open>A prescribed tuple of the wrong length\<close>

text \<open>
  Claim C5 reads: for a prescribed tuple whose length is not 2, \<^verbatim>\<open>prepare_rhs\<close> logs the
  error and continues, leaving the equilibrium columns of that label at zero. The code
  logs and then goes on with the tuple as it is: for a tuple of three components it calls
  the first with the second as extra arguments and writes the equilibrium into the columns
  of the label. Here the column of label 0 holds 7 after the call.
\<close>

theorem prepare_rhs_wrong_arity_counterexample:
  "map_of (value_bc wrong_arity_instance) 0 =
     Some (Some (PyTuple [PyFunction 0, PyTuple [], PyObject 9])) \<and>
   length [PyFunction 0, PyTuple [], PyObject 9] \<noteq> 2 \<and>
   where_label (ilabel wrong_arity_instance) 0 = [0] \<and>
   feq wrong_arity_instance ! 1 ! 0 = 0 \<and>
   prepare_rhs constant_simulation wrong_arity_instance =
     (None, wrong_arity_instance\<lparr>logged := [arity_message],
              feq := [[7, 0], [7, 0], [7, 0]]\<rparr>) \<and>
   feq (snd (prepare_rhs constant_simulation wrong_arity_instance)) ! 1 ! 0 = 7"
  by (simp add: wrong_arity_instance_def constant_simulation_def prepare_rhs_def
      prepare_rhs_label_def where_label_def getitem_def prescribed_call_def write_columns_def
      write_row_def upt_rec)

text \<open>
  Claim C5 as amended: for a prescribed tuple whose length is not 2, \<^verbatim>\<open>prepare_rhs\<close>, once
  it has computed the coordinates of the label's columns, logs the error and goes on with
  the tuple. With fewer than two components it raises
  IndexError and leaves the equilibrium table as it was; with more than two it does with the
  first two components what it does for that pair, writing the columns of the label or
  raising the same exception. The columns of every other label keep their values.
\<close>

theorem prepare_rhs_wrong_arity:
  assumes "prepare_rhs_label sim self (key, Some (PyTuple vs)) = (e, self')"
    and "length vs \<noteq> 2"
    and "length (ilabel self) = length (istore self)"
    and "length (distance self) = length (istore self)"
    and "coordinates sim (map (\<lambda>c. istore self ! c) (where_label (ilabel self) key))
           (map (\<lambda>c. distance self ! c) (where_label (ilabel self) key)) = Inr coords"
  shows "logged self' = logged self @ [arity_message] \<and>
    (length vs < 2 \<longrightarrow> e = Some IndexError \<and> feq self' = feq self) \<and>
    (2 < length vs \<longrightarrow>
       e = fst (prepare_rhs_label sim self (key, Some (PyTuple (take 2 vs)))) \<and>
       feq self' = feq (snd (prepare_rhs_label sim self (key, Some (PyTuple (take 2 vs)))))) \<and>
    length (feq self') = length (feq self) \<and>
    (\<forall>c. ilabel self ! c \<noteq> key \<longrightarrow>
       (\<forall>r<length (feq self). feq self' ! r ! c = feq self ! r ! c))"
proof -
  note eq = prepare_rhs_label_Some[OF assms(3,4,5)]
  have lg: "logged self' = logged self @ [arity_message]"
    using assms(1,2) unfolding eq by (auto simp: prescribed_call_log split: sum.splits)
  have short: "e = Some IndexError \<and> feq self' = feq self" if "length vs < 2"
    using assms(1) prescribed_call_short[OF that] unfolding eq by auto
  have long: "e = fst (prepare_rhs_label sim self (key, Some (PyTuple (take 2 vs)))) \<and>
       feq self' = feq (snd (prepare_rhs_label sim self (key, Some (PyTuple (take 2 vs)))))"
    if "2 < length vs"
    using assms(1) prescribed_call_take[OF that] unfolding eq
    by (auto split: sum.splits)
  have "snd (key, Some (PyTuple vs)) = None \<or> ilabel self ! c \<noteq> fst (key, Some (PyTuple vs))"
    if "ilabel self ! c \<noteq> key" for c
    using that by simp
  from prepare_rhs_label_other[OF assms(1) this]
  have other: "\<forall>c. ilabel self ! c \<noteq> key \<longrightarrow>
       (\<forall>r<length (feq self). feq self' ! r ! c = feq self ! r ! c)"
    by auto
  have len: "length (feq self') = length (feq self)"
    using assms(1) unfolding eq by (auto split: sum.splits dest: write_columns_Inr)
  from lg short long other len show ?thesis by blast
qed

theorem prepare_rhs_wrong_arity_witness:
  "prepare_rhs_label constant_simulation wrong_arity_instance
       (0, Some (PyTuple [PyFunction 0, PyTuple [], PyObject 9])) =
     (None, wrong_arity_instance\<lparr>logged := [arity_message],
              feq := [[7, 0], [7, 0], [7, 0]]\<rparr>) \<and>
   prepare_rhs_label constant_simulation wrong_arity_instance
       (0, Some (PyTuple [PyFunction 0, PyTuple []])) =
     (None, wrong_arity_instance\<lparr>logged := [], feq := [[7, 0], [7, 0], [7, 0]]\<rparr>) \<and>
   logged (wrong_arity_instance\<lparr>logged := [arity_message],
              feq := [[7, 0], [7, 0], [7, 0]]\<rparr>) = logged wrong_arity_instance @ [arity_message] \<and>
   ilabel wrong_arity_instance ! 1 \<noteq> 0"
proof -
  let ?vs = "[PyFunction 0, PyTuple [], PyObject 9]"
  let ?s' = "wrong_arity_instance\<lparr>logged := [arity_message],
              feq := [[7, 0], [7, 0], [7, 0]]\<rparr>"
  have h1: "prepare_rhs_label constant_simulation wrong_arity_instance (0, Some (PyTuple ?vs)) =
      (None, ?s')"
    by (simp add: wrong_arity_instance_def constant_simulation_def prepare_rhs_label_def
        where_label_def getitem_def prescribed_call_def write_columns_def write_row_def upt_rec)
  have h2: "length ?vs \<noteq> 2" by simp
  have h3: "length (ilabel wrong_arity_instance) = length (istore wrong_arity_instance)"
    and h4: "length (distance wrong_arity_instance) = length (istore wrong_arity_instance)"
    by (simp_all add: wrong_arity_instance_def)
  have h5: "coordinates constant_simulation
      (map (\<lambda>c. istore wrong_arity_instance ! c) (where_label (ilabel wrong_arity_instance) 0))
      (map (\<lambda>c. distance wrong_arity_instance ! c) (where_label (ilabel wrong_arity_instance) 0))
      = Inr [[0]]"
    by (simp add: wrong_arity_instance_def constant_simulation_def where_label_def upt_rec)
  have two: "prepare_rhs_label constant_simulation wrong_arity_instance
       (0, Some (PyTuple [PyFunction 0, PyTuple []])) =
     (None, wrong_arity_instance\<lparr>logged := [], feq := [[7, 0], [7, 0], [7, 0]]\<rparr>)"
    by (simp add: wrong_arity_instance_def constant_simulation_def prepare_rhs_label_def
        where_label_def getitem_def prescribed_call_def write_columns_def write_row_def upt_rec)
  from prepare_rhs_wrong_arity[OF h1 h2 h3 h4 h5]
  have "logged ?s' = logged wrong_arity_instance @ [arity_message]" by blast
  moreover have "ilabel wrong_arity_instance ! 1 \<noteq> 0" by (simp add: wrong_arity_instance_def)
  ultimately show ?thesis using h1 two by simp
qed

section \<open>The order of the columns\<close>

text \<open>
  Claim C6: two constructions of \<^verbatim>\<open>Boundary\<close> on the same domain and configuration give the
  same result, and the result is fixed by the traversal: the classes stand in the order in
  which the traversal of the labels, of the families of each label and of the velocities of
  each family first meets them, and the tables \<^verbatim>\<open>istore\<close>, \<^verbatim>\<open>ilabel\<close> and \<^verbatim>\<open>distance\<close> of a
  class are the concatenation, in the order of the traversal, of the columns that the
  non-empty records contribute to it.
\<close>

theorem Boundary_init_deterministic_order:
  assumes "Boundary_init dmn d = Inr b"
  shows "(\<forall>dmn' d' b'. dmn' = dmn \<and> d' = d \<and> Boundary_init dmn' d' = Inr b' \<longrightarrow> b' = b) \<and>
    (\<exists>bvs cs. build_bv dmn = Inr bvs \<and> traversal dmn d bvs = Inr cs \<and>
       map kind (methods b) = first_seen (map fst cs) \<and>
       (\<forall>n<length (methods b).
          istore (methods b ! n) = columns_of (kind (methods b ! n)) cs \<and>
          ilabel (methods b ! n) = labels_of (kind (methods b ! n)) cs \<and>
          distance (methods b ! n) = distances_of (kind (methods b ! n)) cs))"
  using Boundary_init_grouped[OF assms] assms by auto

theorem Boundary_init_deterministic_order_witness:
  "\<exists>b bvs. Boundary_init segment walls = Inr b \<and>
     map (\<lambda>m. (kind m, istore m, ilabel m, distance m)) (methods b) =
       [(bounce_back, [(1, [0]), (2, [3])], [0, 1], [3 / 4, 1 / 4])] \<and>
     build_bv segment = Inr bvs \<and>
     traversal segment walls bvs =
       Inr [(bounce_back, [(1, [0])], [0], [3 / 4]), (bounce_back, [(2, [3])], [1], [1 / 4])] \<and>
     map kind (methods b) = [bounce_back]"
proof -
  from segment_methods obtain b where b: "Boundary_init segment walls = Inr b"
    and m: "map (\<lambda>m. (kind m, istore m, ilabel m, distance m)) (methods b) =
       [(bounce_back, [(1, [0]), (2, [3])], [0, 1], [3 / 4, 1 / 4])]"
    by (cases "Boundary_init segment walls") auto
  from Boundary_init_deterministic_order[OF b] obtain bvs cs where
    bvs: "build_bv segment = Inr bvs" and cs: "traversal segment walls bvs = Inr cs"
    and k: "map kind (methods b) = first_seen (map fst cs)"
    by blast
  from segment_traversal bvs cs have
    c: "cs = [(bounce_back, [(1, [0])], [0], [3 / 4]), (bounce_back, [(2, [3])], [1], [1 / 4])]"
    by simp
  with k have "map kind (methods b) = [bounce_back]" by simp
  with b m bvs cs c show ?thesis by (intro exI[of _ b] exI[of _ bvs]) simp
qed

section \<open>The frame of \<^verbatim>\<open>update\<close>\<close>

text \<open>
  Claim C7: for an instance of any class, \<^verbatim>\<open>update(f)\<close> keeps the shape of the field and
  every entry that no column of the destination table \<^verbatim>\<open>istore\<close> addresses, and it leaves
  the instance, with its destination, label, distance and load tables, as it was.
\<close>

theorem update_frame:
  assumes "update self f = Inr (self', f')"
  shows "shape f' = shape f \<and>
    (\<forall>i. (\<forall>c<length (istore self). field_index (shape f) (istore self ! c) \<noteq> Inr i) \<longrightarrow>
         entries f' i = entries f i) \<and>
    istore self' = istore self \<and> ilabel self' = ilabel self \<and>
    distance self' = distance self \<and> iload self' = iload self \<and> self' = self"
proof -
  from update_Inr[OF assms] obtain vals idx where
    idx: "mapE (field_index (shape f)) (istore self) = Inr idx"
    and len: "length idx = length vals" and same: "self' = self" and shp: "shape f' = shape f"
    and ent: "entries f' = store (entries f) (zip idx vals)"
    by auto
  have n: "length idx = length (istore self)" using mapE_length[OF idx] .
  have "entries f' i = entries f i"
    if out: "\<forall>c<length (istore self). field_index (shape f) (istore self ! c) \<noteq> Inr i" for i
  proof -
    have "i \<notin> set idx"
    proof
      assume "i \<in> set idx"
      then obtain c where c: "c < length idx" "idx ! c = i" by (auto simp: in_set_conv_nth)
      with mapE_nth[OF idx, of c] n have "field_index (shape f) (istore self ! c) = Inr i"
        by simp
      with out c n show False by simp
    qed
    then have "i \<notin> fst ` set (zip idx vals)" by (auto dest: set_zip_leftD)
    from store_other[OF this] ent show ?thesis by simp
  qed
  with same shp show ?thesis by simp
qed

theorem update_frame_witness:
  "update Bouzidi_ready sample_field =
     Inr (Bouzidi_ready,
          sample_field\<lparr>entries := (entries sample_field)([1, 0] := 9, [2, 3] := 29 / 3)\<rparr>) \<and>
   ((entries sample_field)([1, 0] := 9, [2, 3] := 29 / 3)) [2, 1] = entries sample_field [2, 1] \<and>
   istore Bouzidi_ready = [(1, [0]), (2, [3])]"
proof -
  let ?f' = "sample_field\<lparr>entries := (entries sample_field)([1, 0] := 9, [2, 3] := 29 / 3)\<rparr>"
  have h: "update Bouzidi_ready sample_field = Inr (Bouzidi_ready, ?f')"
    by (simp add: Bouzidi_ready_def Bouzidi_instance_def update_def update_values_def
        Bouzidi_bounce_back_values_def gather_def scatter_def field_index_def axis_index_def
        sample_field_def getitem_def zipWithE_def store_def)
  have out: "\<forall>c<length (istore Bouzidi_ready).
      field_index (shape sample_field) (istore Bouzidi_ready ! c) \<noteq> Inr [2, 1]"
    by (simp add: Bouzidi_ready_def Bouzidi_instance_def field_index_def axis_index_def
        sample_field_def less_Suc_eq all_conj_distrib numeral_2_eq_2)
  from update_frame[OF h] out have "entries ?f' [2, 1] = entries sample_field [2, 1]"
    by blast
  with h show ?thesis by (simp add: Bouzidi_ready_def Bouzidi_instance_def)
qed

section \<open>Continuity of the Bouzidi interpolation\<close>

lemma Bouzidi_s_left: "((\<lambda>d. Bouzidi_s d) \<longlongrightarrow> 1) (at_left (1 / 2))"
proof -
  have "((\<lambda>d::real. 2 * d) \<longlongrightarrow> 2 * (1 / 2)) (at_left (1 / 2))"
    by (intro tendsto_intros)
  moreover have "\<forall>\<^sub>F d in at_left (1 / 2). 2 * d = Bouzidi_s d"
    unfolding eventually_at_filter by (simp add: Bouzidi_s_def)
  ultimately show ?thesis using tendsto_cong[THEN iffD1] by fastforce
qed

lemma Bouzidi_s_right: "((\<lambda>d. Bouzidi_s d) \<longlongrightarrow> 1) (at_right (1 / 2))"
proof -
  have "((\<lambda>d::real. (1 / 2) / d) \<longlongrightarrow> (1 / 2) / (1 / 2)) (at_right (1 / 2))"
    by (intro tendsto_intros) simp_all
  moreover have "\<forall>\<^sub>F d in at_right (1 / 2). (1 / 2) / d = Bouzidi_s d"
    unfolding eventually_at_filter by (simp add: Bouzidi_s_def)
  ultimately show ?thesis using tendsto_cong[THEN iffD1] by fastforce
qed

lemma Bouzidi_column_written:
  "written_entry (Bouzidi_column d q1 q2) \<lparr> shape = [3, 4], entries = g \<rparr> [1, 0] =
     Inr (Bouzidi_s d * g [2, 1] + (1 - Bouzidi_s d) * g (if d < 1 / 2 then [2, 2] else [1, 1])
          + (q1 - q2))"
  by (simp add: written_entry_def Bouzidi_column_def set_iload_def Bouzidi_set_iload_def
      Bouzidi_load1_def Bouzidi_load2_def D1Q3_def getitem_def add_vec_def zipWithE_def
      set_rhs_def assign_rhs_def rhs_entry_def feq_at_def update_def update_values_def
      Bouzidi_bounce_back_values_def gather_def scatter_def field_index_def axis_index_def
      store_def)

lemma Bouzidi_tendsto_left:
  "((\<lambda>d. Bouzidi_s d * f1 + (1 - Bouzidi_s d) * h d + r) \<longlongrightarrow> f1 + r) (at_left (1 / 2))"
  if "\<And>d. h d = (if d < 1 / 2 then a else b)" for h :: "real \<Rightarrow> real"
proof -
  have "((\<lambda>d. Bouzidi_s d * f1 + (1 - Bouzidi_s d) * a + r) \<longlongrightarrow> 1 * f1 + (1 - 1) * a + r)
      (at_left (1 / 2))"
    by (intro tendsto_intros Bouzidi_s_left)
  moreover have "\<forall>\<^sub>F d in at_left (1 / 2).
      Bouzidi_s d * f1 + (1 - Bouzidi_s d) * a + r = Bouzidi_s d * f1 + (1 - Bouzidi_s d) * h d + r"
    unfolding eventually_at_filter by (simp add: that)
  ultimately have "((\<lambda>d. Bouzidi_s d * f1 + (1 - Bouzidi_s d) * h d + r) \<longlongrightarrow>
      1 * f1 + (1 - 1) * a + r) (at_left (1 / 2))"
    by (rule Lim_transform_eventually)
  then show ?thesis by simp
qed

lemma Bouzidi_tendsto_right:
  "((\<lambda>d. Bouzidi_s d * f1 + (1 - Bouzidi_s d) * h d + r) \<longlongrightarrow> f1 + r) (at_right (1 / 2))"
  if "\<And>d. h d = (if d < 1 / 2 then a else b)" for h :: "real \<Rightarrow> real"
proof -
  have "((\<lambda>d. Bouzidi_s d * f1 + (1 - Bouzidi_s d) * b + r) \<longlongrightarrow> 1 * f1 + (1 - 1) * b + r)
      (at_right (1 / 2))"
    by (intro tendsto_intros Bouzidi_s_right)
  moreover have "\<forall>\<^sub>F d in at_right (1 / 2).
      Bouzidi_s d * f1 + (1 - Bouzidi_s d) * b + r = Bouzidi_s d * f1 + (1 - Bouzidi_s d) * h d + r"
    unfolding eventually_at_filter by (simp add: that)
  ultimately have "((\<lambda>d. Bouzidi_s d * f1 + (1 - Bouzidi_s d) * h d + r) \<longlongrightarrow>
      1 * f1 + (1 - 1) * b + r) (at_right (1 / 2))"
    by (rule Lim_transform_eventually)
  then show ?thesis by simp
qed

text \<open>
  Claim C8: with the two loaded values and the forcing term fixed, the value written by the
  Bouzidi update, \<open>s * f1 + (1 - s) * f2 + r\<close> with \<open>s\<close> the weight that \<^verbatim>\<open>set_iload\<close>
  assigns for the distance, tends to \<open>f1 + r\<close> when the distance tends to 0.5 from below
  (where \<open>s = 2 * d\<close>) and from above (where \<open>s = 0.5 / d\<close>), and this is its value at
  0.5. The second loaded value may differ between the two branches, as the second load
  table does. The same is shown of the entry that \<^verbatim>\<open>set_iload\<close>, \<^verbatim>\<open>set_rhs\<close> and \<^verbatim>\<open>update\<close>
  leave in a field of any entries, for an instance of one column at the distance \<open>d\<close>.
  The entries are real numbers here, the idealisation of \<^verbatim>\<open>float64\<close>.
\<close>

theorem Bouzidi_continuous_at_half:
  "((\<lambda>d. Bouzidi_s d * f1 + (1 - Bouzidi_s d) * f2 + r) \<longlongrightarrow> f1 + r) (at_left (1 / 2)) \<and>
   ((\<lambda>d. Bouzidi_s d * f1 + (1 - Bouzidi_s d) * f2' + r) \<longlongrightarrow> f1 + r) (at_right (1 / 2)) \<and>
   Bouzidi_s (1 / 2) * f1 + (1 - Bouzidi_s (1 / 2)) * f2' + r = f1 + r \<and>
   ((\<lambda>d. case_sum (\<lambda>e. 0) id
          (written_entry (Bouzidi_column d q1 q2) \<lparr> shape = [3, 4], entries = g \<rparr> [1, 0]))
      \<longlongrightarrow> g [2, 1] + (q1 - q2)) (at_left (1 / 2)) \<and>
   ((\<lambda>d. case_sum (\<lambda>e. 0) id
          (written_entry (Bouzidi_column d q1 q2) \<lparr> shape = [3, 4], entries = g \<rparr> [1, 0]))
      \<longlongrightarrow> g [2, 1] + (q1 - q2)) (at_right (1 / 2)) \<and>
   written_entry (Bouzidi_column (1 / 2) q1 q2) \<lparr> shape = [3, 4], entries = g \<rparr> [1, 0] =
     Inr (g [2, 1] + (q1 - q2))"
proof (intro conjI)
  show "((\<lambda>d. Bouzidi_s d * f1 + (1 - Bouzidi_s d) * f2 + r) \<longlongrightarrow> f1 + r) (at_left (1 / 2))"
    by (rule Bouzidi_tendsto_left[where a = f2 and b = f2]) simp
  show "((\<lambda>d. Bouzidi_s d * f1 + (1 - Bouzidi_s d) * f2' + r) \<longlongrightarrow> f1 + r) (at_right (1 / 2))"
    by (rule Bouzidi_tendsto_right[where a = f2' and b = f2']) simp
  show "Bouzidi_s (1 / 2) * f1 + (1 - Bouzidi_s (1 / 2)) * f2' + r = f1 + r"
    by (simp add: Bouzidi_s_def)
  show "((\<lambda>d. case_sum (\<lambda>e. 0) id
          (written_entry (Bouzidi_column d q1 q2) \<lparr> shape = [3, 4], entries = g \<rparr> [1, 0]))
      \<longlongrightarrow> g [2, 1] + (q1 - q2)) (at_left (1 / 2))"
    unfolding Bouzidi_column_written sum.case id_apply
    by (rule Bouzidi_tendsto_left[where a = "g [2, 2]" and b = "g [1, 1]"]) simp
  show "((\<lambda>d. case_sum (\<lambda>e. 0) id
          (written_entry (Bouzidi_column d q1 q2) \<lparr> shape = [3, 4], entries = g \<rparr> [1, 0]))
      \<longlongrightarrow> g [2, 1] + (q1 - q2)) (at_right (1 / 2))"
    unfolding Bouzidi_column_written sum.case id_apply
    by (rule Bouzidi_tendsto_right[where a = "g [2, 2]" and b = "g [1, 1]"]) simp
  show "written_entry (Bouzidi_column (1 / 2) q1 q2) \<lparr> shape = [3, 4], entries = g \<rparr> [1, 0] =
     Inr (g [2, 1] + (q1 - q2))"
    unfolding Bouzidi_column_written by (simp add: Bouzidi_s_def)
qed

section \<open>Deriving the load tables twice\<close>

text \<open>
  Claim C9 reads: calling \<^verbatim>\<open>set_iload\<close> twice yields identical load tables. Every
  \<^verbatim>\<open>set_iload\<close> appends to \<^verbatim>\<open>self.iload\<close>, so the second call leaves a longer list than the
  first: for the bounce-back instance of one column, one table after one call and two
  after two.
\<close>

theorem set_iload_twice_counterexample:
  "map_sum id iload (set_iload reflection_instance) = Inr [[(2, [1])]] \<and>
   map_sum id iload (bindE (set_iload reflection_instance) set_iload) =
     Inr [[(2, [1])], [(2, [1])]] \<and>
   map_sum id iload (bindE (set_iload reflection_instance) set_iload) \<noteq>
     map_sum id iload (set_iload reflection_instance)"
  by (simp add: reflection_instance_def set_iload_def append_iload_def bounce_back_load_def
      D1Q3_def getitem_def add_vec_def zipWithE_def)

text \<open>
  Claim C9 as amended: with the geometry unchanged, a second call of \<^verbatim>\<open>set_iload\<close> succeeds
  where the first did and derives the same tables again, which it appends to
  \<^verbatim>\<open>self.iload\<close>: the list grows by a copy of what the first call appended. The tables that
  \<^verbatim>\<open>update\<close> reads, \<^verbatim>\<open>self.iload[0]\<close> and for the Bouzidi classes \<^verbatim>\<open>self.iload[1]\<close>, and the
  weights \<^verbatim>\<open>self.s\<close> are those of the single call, and \<^verbatim>\<open>update\<close> computes the same values
  and the same field after either.
\<close>

theorem set_iload_twice:
  assumes "set_iload self = Inr self1"
  shows "\<exists>self2 new.
      set_iload self1 = Inr self2 \<and> new \<noteq> [] \<and>
      iload self1 = iload self @ new \<and> iload self2 = iload self1 @ new \<and>
      bm_s self2 = bm_s self1 \<and>
      getitem (iload self2) 0 = getitem (iload self1) 0 \<and>
      (kind self = Bouzidi_bounce_back \<or> kind self = Bouzidi_anti_bounce_back \<longrightarrow>
         getitem (iload self2) 1 = getitem (iload self1) 1) \<and>
      (\<forall>f. update_values self2 f = update_values self1 f \<and>
           map_sum id snd (update self2 f) = map_sum id snd (update self1 f))"
proof -
  from set_iload_again[OF assms] obtain new where new: "new \<noteq> []"
    and il: "iload self1 = iload self @ new"
    and two: "kind self = Bouzidi_bounce_back \<or> kind self = Bouzidi_anti_bounce_back \<longrightarrow>
       length new = 2"
    and again: "set_iload self1 = Inr (self1\<lparr>iload := iload self1 @ new\<rparr>)"
    by auto
  let ?s2 = "self1\<lparr>iload := iload self1 @ new\<rparr>"
  have k1: "kind self1 = kind self"
    using assms by (auto simp: set_iload_def append_iload_def Bouzidi_set_iload_def bindE_Inr
        split: method_type.splits if_splits)
  have ne: "iload self1 \<noteq> []" using il new by simp
  have ge: "kind self1 = Bouzidi_bounce_back \<or> kind self1 = Bouzidi_anti_bounce_back \<longrightarrow>
      2 \<le> length (iload self1)" using il two k1 by auto
  have uv: "update_values ?s2 f = update_values self1 f" for f
    using update_values_more_loads[OF ne ge refl] by simp
  have up: "map_sum id snd (update ?s2 f) = map_sum id snd (update self1 f)" for f
  proof (cases "update_values self1 f")
    case (Inl e)
    then show ?thesis using uv[of f] by (simp add: update_def)
  next
    case (Inr vals)
    then show ?thesis using uv[of f]
      by (cases "scatter f (istore self1) vals") (simp_all add: update_def)
  qed
  have g0: "getitem (iload ?s2) 0 = getitem (iload self1) 0"
    using ne by (simp add: getitem_append_0)
  have g1: "kind self = Bouzidi_bounce_back \<or> kind self = Bouzidi_anti_bounce_back \<longrightarrow>
         getitem (iload ?s2) 1 = getitem (iload self1) 1"
    using ge k1 by (auto simp: getitem_append_1)
  show ?thesis
    apply (rule exI[of _ ?s2], rule exI[of _ new])
    using again new il g0 g1 uv up by simp
qed

theorem set_iload_twice_witness:
  "\<exists>self2.
     set_iload (Bouzidi_instance\<lparr>bm_s := [1 / 2, 2 / 3],
        iload := [[(2, [1]), (1, [2])], [(2, [2]), (2, [2])]]\<rparr>) = Inr self2 \<and>
     getitem (iload self2) 0 = Inr [(2, [1]), (1, [2])] \<and>
     getitem (iload self2) 1 = Inr [(2, [2]), (2, [2])] \<and>
     bm_s self2 = [1 / 2, 2 / 3]"
proof -
  let ?s1 = "Bouzidi_instance\<lparr>bm_s := [1 / 2, 2 / 3],
        iload := [[(2, [1]), (1, [2])], [(2, [2]), (2, [2])]]\<rparr>"
  have h: "set_iload Bouzidi_instance = Inr ?s1"
    by (simp add: Bouzidi_instance_def set_iload_def Bouzidi_set_iload_def Bouzidi_load1_def
        Bouzidi_load2_def Bouzidi_s_def D1Q3_def getitem_def add_vec_def zipWithE_def)
  have k: "kind Bouzidi_instance = Bouzidi_bounce_back" by (simp add: Bouzidi_instance_def)
  from set_iload_twice[OF h] k obtain self2 where
    "set_iload ?s1 = Inr self2" "bm_s self2 = bm_s ?s1"
    "getitem (iload self2) 0 = getitem (iload ?s1) 0"
    "getitem (iload self2) 1 = getitem (iload ?s1) 1"
    by auto
  then show ?thesis by (intro exI[of _ self2]) (simp add: getitem_def)
qed

section \<open>Labels without configuration, reserved labels\<close>

text \<open>
  Claim C10: when the domain has a label other than -1 and -2 that the configuration does
  not name, or names without the key \<^verbatim>\<open>'method'\<close>, the construction of \<^verbatim>\<open>Boundary\<close> fails:
  with a KeyError or an IndexError when the records of lines 76-81 could be built, and
  with their exception otherwise. The labels -1 and -2 are skipped whatever the
  configuration says, the tables being left as they are: no instance has a column of such
  a label, and a domain of reserved labels only has no instance.
\<close>

theorem Boundary_init_labels:
  "(l \<in> set (list_of_labels dmn) \<and> l \<noteq> - 1 \<and> l \<noteq> - 2 \<and>
      (dico_bound_of d l = None \<or>
       (\<exists>entry. dico_bound_of d l = Some entry \<and> bc_method entry = None)) \<longrightarrow>
      (case build_bv dmn of
         Inl e \<Rightarrow> Boundary_init dmn d = Inl e
       | Inr bvs \<Rightarrow> Boundary_init dmn d = Inl KeyError \<or> Boundary_init dmn d = Inl IndexError)) \<and>
   label_step st bvs db acc (- 1) = Inr acc \<and>
   label_step st bvs db acc (- 2) = Inr acc \<and>
   (Boundary_init dmn d = Inr b \<longrightarrow>
      (\<forall>n<length (methods b).
         - 1 \<notin> set (ilabel (methods b ! n)) \<and> - 2 \<notin> set (ilabel (methods b ! n))) \<and>
      (list_all (\<lambda>l. l = - 1 \<or> l = - 2) (list_of_labels dmn) \<longrightarrow> methods b = []))"
proof (intro conjI impI)
  assume a: "l \<in> set (list_of_labels dmn) \<and> l \<noteq> - 1 \<and> l \<noteq> - 2 \<and>
      (dico_bound_of d l = None \<or>
       (\<exists>entry. dico_bound_of d l = Some entry \<and> bc_method entry = None))"
  show "case build_bv dmn of
         Inl e \<Rightarrow> Boundary_init dmn d = Inl e
       | Inr bvs \<Rightarrow> Boundary_init dmn d = Inl KeyError \<or> Boundary_init dmn d = Inl IndexError"
  proof (cases "build_bv dmn")
    case (Inl e)
    then show ?thesis by (simp add: Boundary_init_def)
  next
    case (Inr bvs)
    have "\<exists>e. foldE (label_step (dom_stencil dmn) bvs (dico_bound_of d)) (list_of_labels dmn)
        empty_tables = Inl e"
    proof (rule foldE_fails)
      show "l \<in> set (list_of_labels dmn)" using a by simp
      show "\<exists>e. label_step (dom_stencil dmn) bvs (dico_bound_of d) s l = Inl e" for s
        using label_step_unconfigured[of l "dico_bound_of d"] a by blast
    qed
    then obtain e where e: "build_tables dmn d bvs = Inl e" by (auto simp: build_tables_def)
    from build_tables_Inl[OF e] e Inr show ?thesis by (auto simp: Boundary_init_def)
  qed
next
  show "label_step st bvs db acc (- 1) = Inr acc" by (simp add: label_step_def)
next
  show "label_step st bvs db acc (- 2) = Inr acc" by (simp add: label_step_def)
next
  assume b: "Boundary_init dmn d = Inr b"
  from Boundary_init_grouped[OF b] obtain bvs' cs where
    cs: "traversal dmn d bvs' = Inr cs"
    and il: "\<forall>n<length (methods b). ilabel (methods b ! n) = labels_of (kind (methods b ! n)) cs"
    by blast
  show "\<forall>n<length (methods b).
         - 1 \<notin> set (ilabel (methods b ! n)) \<and> - 2 \<notin> set (ilabel (methods b ! n))"
    using il traversal_labels[OF cs] by (auto dest!: labels_of_mem)
next
  assume b: "Boundary_init dmn d = Inr b"
    and r: "list_all (\<lambda>l. l = - 1 \<or> l = - 2) (list_of_labels dmn)"
  from Boundary_init_grouped[OF b] obtain bvs' cs where
    cs: "traversal dmn d bvs' = Inr cs"
    and k: "map kind (methods b) = first_seen (map fst cs)"
    by blast
  from traversal_reserved[OF r, of d bvs'] cs have "cs = []" by simp
  with k show "methods b = []" by simp
qed

theorem Boundary_init_labels_witness:
  "(Boundary_init segment left_wall_only = Inl KeyError \<or>
    Boundary_init segment left_wall_only = Inl IndexError) \<and>
   (\<exists>b. Boundary_init segment walls = Inr b \<and>
      - 1 \<notin> set (concat (map ilabel (methods b))) \<and>
      - 2 \<notin> set (concat (map ilabel (methods b)))) \<and>
   (\<exists>b. Boundary_init (segment\<lparr>list_of_labels := [- 1, - 2]\<rparr>) walls = Inr b \<and>
      methods b = [])"
proof (intro conjI)
  have h: "1 \<in> set (list_of_labels segment) \<and> (1::int) \<noteq> - 1 \<and> (1::int) \<noteq> - 2 \<and>
      (dico_bound_of left_wall_only 1 = None \<or>
       (\<exists>entry. dico_bound_of left_wall_only 1 = Some entry \<and> bc_method entry = None))"
    by (simp add: segment_def left_wall_only_def dico_bound_of_def)
  from segment_build_bv obtain bvs where bvs: "build_bv segment = Inr bvs"
    by (cases "build_bv segment") auto
  from Boundary_init_labels[of 1 segment left_wall_only] h bvs
  show "Boundary_init segment left_wall_only = Inl KeyError \<or>
    Boundary_init segment left_wall_only = Inl IndexError"
    by simp
next
  from segment_methods obtain b where b: "Boundary_init segment walls = Inr b"
    by (cases "Boundary_init segment walls") auto
  from Boundary_init_labels[of _ segment walls _ _ _ _ b] b
  have "\<forall>n<length (methods b).
         - 1 \<notin> set (ilabel (methods b ! n)) \<and> - 2 \<notin> set (ilabel (methods b ! n))"
    by blast
  then have "- 1 \<notin> set (concat (map ilabel (methods b))) \<and>
      - 2 \<notin> set (concat (map ilabel (methods b)))"
    by (auto simp: in_set_conv_nth)
  with b show "\<exists>b. Boundary_init segment walls = Inr b \<and>
      - 1 \<notin> set (concat (map ilabel (methods b))) \<and>
      - 2 \<notin> set (concat (map ilabel (methods b)))"
    by blast
next
  let ?dmn = "segment\<lparr>list_of_labels := [- 1, - 2]\<rparr>"
  from segment_reserved_only obtain b where b: "Boundary_init ?dmn walls = Inr b"
    by (cases "Boundary_init ?dmn walls") auto
  have r: "list_all (\<lambda>l. l = - 1 \<or> l = - 2) (list_of_labels ?dmn)" by simp
  from Boundary_init_labels[of _ ?dmn walls _ _ _ _ b] b r have "methods b = []" by blast
  with b show "\<exists>b. Boundary_init ?dmn walls = Inr b \<and> methods b = []" by blast
qed

end
